theory Spec2Isabelle
  imports Main "HOL-Library.AList"
begin

section \<open>The collaboration server: rooms, joins, leaves and code relay\<close>

text \<open>
  The server keeps two registries, both JavaScript \<open>Map\<close>s: \<open>rooms\<close> (room id to a
  map from socket id to user record) and \<open>userSocketMap\<close> (socket id to user record).
  A \<open>Map\<close> iterates in insertion order, \<open>set\<close> on a present key keeps its place and
  \<open>delete\<close> removes the key: an association list with \<open>AList.update\<close>,
  \<open>AList.delete\<close> and \<open>map_of\<close>.

  The source holds two servers. The strict one answers \<open>join-request\<close> through an
  acknowledgment callback, scans the room for the username and leaves the socket's
  current room first; it comes first below. The lenient one does none of the three; it
  follows, with \<open>lenient\<close> in its names.

  A payload field is a string or absent (\<open>None\<close>, JavaScript's \<open>undefined\<close>); the
  inbound payload is an object, as the client sends it. A string is falsy when it is
  empty, and so is an absent field: \<open>truthy\<close>. Clock readings
  (\<open>Date.now()\<close>, \<open>new Date().toISOString()\<close>) are an argument \<open>now\<close> of the
  handlers. Logging is left out.
\<close>

type_synonym jsval = "string option"

definition truthy :: "jsval \<Rightarrow> bool" where
  "truthy v = (case v of None \<Rightarrow> False | Some s \<Rightarrow> s \<noteq> [])"

record user =
  uid :: string
  username :: string
  joinedAt :: nat
  roomId :: string

text \<open>The user record of the lenient server has no room id.\<close>

record lenient_user =
  l_id :: string
  l_username :: string
  l_joinedAt :: nat

record data =
  d_roomId :: jsval
  d_username :: jsval
  d_code :: jsval
  d_cursorPos :: jsval
  d_filePath :: jsval
  d_text :: jsval
  d_x :: jsval
  d_y :: jsval

text \<open>What the server sends: one constructor for each shape of outbound payload.\<close>

datatype payload =
    ErrorP string
  | MessageP string
  | UserLeft string jsval
  | JoinAccepted string string string "user list"
  | UserJoined string string nat string
  | CodeUpdate jsval jsval jsval string nat
  | ReceiveMessage jsval jsval
  | CursorMove jsval jsval jsval nat
  | FileOpened jsval string nat
  | FileUpdate jsval jsval string nat
  | FileSaved jsval string nat
  | JoinSuccess string "lenient_user list"
  | LenientUserJoined lenient_user "lenient_user list"
  | LenientCodeUpdate jsval jsval string nat

record emission =
  recipients :: "string list"
  event :: string
  body :: payload

text \<open>The argument of the acknowledgment callback of \<open>join-request\<close>.\<close>

datatype ack =
    AckError string
  | AckSuccess string "user list" string

type_synonym room = "(string \<times> user) list"

text \<open>
  Besides the two registries the state holds what the transport keeps: the pairs
  (socket id, room) of the sockets joined to a room (\<open>adapter\<close>), the connected
  sockets, the ids handed out so far (\<open>seen\<close>: every connection gets a fresh one) and,
  since the strict server sets \<open>connectionStateRecovery\<close>, the sessions kept for
  recovery (\<open>sessions\<close>: socket id to the rooms the socket was joined to when the
  connection was lost).
\<close>

record server =
  rooms :: "(string \<times> room) list"
  userSocketMap :: "(string \<times> user) list"
  adapter :: "(string \<times> string) list"
  sockets :: "string list"
  seen :: "string list"
  sessions :: "(string \<times> string list) list"

definition init_server :: server where
  "init_server = \<lparr>rooms = [], userSocketMap = [], adapter = [], sockets = [], seen = [],
                   sessions = []\<rparr>"

subsection \<open>The transport library\<close>

text \<open>
  socket.io 4 is a library outside the repository; its operations are modelled as its
  in-memory adapter performs them. \<open>socket.join\<close> and \<open>socket.leave\<close> add and
  remove a pair of \<open>adapter\<close>; a connecting socket joins the room named by its own
  id; a disconnecting socket has left every room when its \<open>disconnect\<close> listener
  runs. \<open>io.to(room)\<close> addresses every socket joined to the room.
  \<open>socket.to(room)\<close> is a broadcast to the room that excepts the room named by the
  sender's id: it addresses the sockets joined to \<open>room\<close> that are not joined to the
  room named by the sender's id. That is everybody but the sender as long as the sender
  alone is joined to the room of its id; it skips every other socket joined to that
  room, and it skips nobody, the sender included, once the sender has left it.
  With \<open>connectionStateRecovery\<close>, which the strict server sets, \<open>socket.emit\<close>
  is a broadcast to the room named by the socket's id: \<open>socket_emit\<close>. The lenient
  server does not set the option and never calls \<open>socket.emit\<close>.
\<close>

definition socket_join :: "string \<Rightarrow> string \<Rightarrow> (string \<times> string) list \<Rightarrow> (string \<times> string) list" where
  "socket_join socket_id r ad = (if (socket_id, r) \<in> set ad then ad else ad @ [(socket_id, r)])"

definition socket_leave :: "string \<Rightarrow> string \<Rightarrow> (string \<times> string) list \<Rightarrow> (string \<times> string) list" where
  "socket_leave socket_id r ad = removeAll (socket_id, r) ad"

definition leave_all :: "string \<Rightarrow> (string \<times> string) list \<Rightarrow> (string \<times> string) list" where
  "leave_all socket_id ad = filter (\<lambda>p. fst p \<noteq> socket_id) ad"

definition io_to :: "jsval \<Rightarrow> (string \<times> string) list \<Rightarrow> string list" where
  "io_to r ad = (case r of None \<Rightarrow> [] | Some rm \<Rightarrow> map fst (filter (\<lambda>p. snd p = rm) ad))"

definition socket_to :: "string \<Rightarrow> jsval \<Rightarrow> (string \<times> string) list \<Rightarrow> string list" where
  "socket_to socket_id r ad = filter (\<lambda>s. (s, socket_id) \<notin> set ad) (io_to r ad)"

definition socket_emit :: "string \<Rightarrow> (string \<times> string) list \<Rightarrow> string list" where
  "socket_emit socket_id ad = io_to (Some socket_id) ad"

text \<open>
  The socket alone is joined to the room named by its id: the state in which
  \<open>socket.to\<close> skips the sender and nobody else, and \<open>socket.emit\<close> reaches
  the socket and nobody else.
\<close>

definition own_room_private :: "string \<Rightarrow> (string \<times> string) list \<Rightarrow> bool" where
  "own_room_private socket_id ad \<longleftrightarrow> set (io_to (Some socket_id) ad) = {socket_id}"

subsection \<open>Helper functions of the server\<close>

definition has :: "'k \<Rightarrow> ('k \<times> 'v) list \<Rightarrow> bool" where
  "has k m = (map_of m k \<noteq> None)"

definition getUsersInRoom :: "string \<Rightarrow> (string \<times> room) list \<Rightarrow> user list" where
  "getUsersInRoom r rs = (case map_of rs r of None \<Rightarrow> [] | Some rm \<Rightarrow> map snd rm)"

fun getRoomForSocket :: "string \<Rightarrow> (string \<times> room) list \<Rightarrow> string option" where
  "getRoomForSocket socket_id [] = None"
| "getRoomForSocket socket_id ((r, users) # rest) =
     (if has socket_id users then Some r else getRoomForSocket socket_id rest)"

subsection \<open>The \<open>join-request\<close> listener\<close>

definition taken_message :: "string \<Rightarrow> string" where
  "taken_message n = ''Username '' @ [CHR 0x27] @ n @ [CHR 0x27] @ '' is already taken in this room''"

text \<open>
  The block "Leave any existing room". \<open>if (currentRoom)\<close> is a truthiness test, so
  the room named by the empty string counts as no room.
\<close>

definition leave_existing :: "string \<Rightarrow> server \<Rightarrow> server \<times> emission list" where
  "leave_existing socket_id st =
     (case getRoomForSocket socket_id (rooms st) of
        None \<Rightarrow> (st, [])
      | Some currentRoom \<Rightarrow>
          if currentRoom = [] then (st, [])
          else
            let ad = socket_leave socket_id currentRoom (adapter st) in
            (case map_of (rooms st) currentRoom of
               None \<Rightarrow> (st\<lparr>adapter := ad\<rparr>, [])
             | Some roomUsers0 \<Rightarrow>
                 let roomUsers = AList.delete socket_id roomUsers0 in
                 if length roomUsers = 0
                 then (st\<lparr>rooms := AList.delete currentRoom (rooms st), adapter := ad\<rparr>, [])
                 else (st\<lparr>rooms := AList.update currentRoom roomUsers (rooms st), adapter := ad\<rparr>,
                       [\<lparr>recipients = socket_to socket_id (Some currentRoom) ad,
                         event = ''user-left'',
                         body = UserLeft socket_id
                                  (map_option username (map_of (userSocketMap st) socket_id))\<rparr>])))"

text \<open>The part from "Join new room" to the acknowledgment.\<close>

definition commit_join :: "string \<Rightarrow> string \<Rightarrow> string \<Rightarrow> nat \<Rightarrow> server \<Rightarrow> server \<times> ack option \<times> emission list" where
  "commit_join socket_id r n now st =
     (let ad = socket_join socket_id r (adapter st);
          rooms1 = (if has r (rooms st) then rooms st else AList.update r [] (rooms st));
          usr = \<lparr>uid = socket_id, username = n, joinedAt = now, roomId = r\<rparr>;
          rm = (case map_of rooms1 r of None \<Rightarrow> [] | Some m \<Rightarrow> m);
          rooms2 = AList.update r (AList.update socket_id usr rm) rooms1;
          usersInRoom = getUsersInRoom r rooms2
      in (st\<lparr>rooms := rooms2,
              userSocketMap := AList.update socket_id usr (userSocketMap st),
              adapter := ad\<rparr>,
          Some (AckSuccess r usersInRoom socket_id),
          [\<lparr>recipients = socket_emit socket_id ad, event = ''join-accepted'',
            body = JoinAccepted socket_id n r usersInRoom\<rparr>,
           \<lparr>recipients = socket_to socket_id (Some r) ad, event = ''user-joined'',
            body = UserJoined socket_id n now r\<rparr>]))"

definition join_request :: "string \<Rightarrow> data \<Rightarrow> nat \<Rightarrow> server \<Rightarrow> server \<times> ack option \<times> emission list" where
  "join_request socket_id d now st =
     (if \<not> truthy (d_roomId d) \<or> \<not> truthy (d_username d)
      then (st, Some (AckError ''Room ID and username are required''), [])
      else
        (case (d_roomId d, d_username d) of
           (Some r, Some n) \<Rightarrow>
             (case find (\<lambda>u. username u = n \<and> uid u \<noteq> socket_id) (getUsersInRoom r (rooms st)) of
                Some existingUser \<Rightarrow>
                  (st, Some (AckError (taken_message n)),
                   [\<lparr>recipients = socket_emit socket_id (adapter st), event = ''username_exists'',
                     body = ErrorP (taken_message n)\<rparr>])
              | None \<Rightarrow>
                  (case leave_existing socket_id st of
                     (st1, left) \<Rightarrow>
                       (case commit_join socket_id r n now st1 of
                          (st2, a, joined) \<Rightarrow> (st2, a, left @ joined))))
         | _ \<Rightarrow> (st, Some (AckError ''Room ID and username are required''), [])))"

subsection \<open>The relay listeners\<close>

definition code_change :: "string \<Rightarrow> data \<Rightarrow> nat \<Rightarrow> server \<Rightarrow> emission list" where
  "code_change socket_id d now st =
     (if \<not> truthy (d_roomId d)
      then [\<lparr>recipients = socket_emit socket_id (adapter st), event = ''error'',
             body = MessageP ''Room ID is required''\<rparr>]
      else [\<lparr>recipients = socket_to socket_id (d_roomId d) (adapter st), event = ''code-update'',
             body = CodeUpdate (d_code d) (d_cursorPos d) (d_filePath d) socket_id now\<rparr>])"

definition send_message :: "string \<Rightarrow> data \<Rightarrow> nat \<Rightarrow> server \<Rightarrow> emission list" where
  "send_message socket_id d now st =
     [\<lparr>recipients = io_to (d_roomId d) (adapter st), event = ''receive-message'',
       body = ReceiveMessage (d_username d) (d_text d)\<rparr>]"

definition cursor_move :: "string \<Rightarrow> data \<Rightarrow> nat \<Rightarrow> server \<Rightarrow> emission list" where
  "cursor_move socket_id d now st =
     [\<lparr>recipients = socket_to socket_id (d_roomId d) (adapter st), event = ''cursor-move'',
       body = CursorMove (d_username d) (d_x d) (d_y d) now\<rparr>]"

text \<open>\<open>js_or v dflt\<close> is JavaScript's \<open>v || dflt\<close> on a string field.\<close>

definition js_or :: "jsval \<Rightarrow> string \<Rightarrow> string" where
  "js_or v dflt = (case v of None \<Rightarrow> dflt | Some s \<Rightarrow> if s = [] then dflt else s)"

definition file_open :: "string \<Rightarrow> data \<Rightarrow> nat \<Rightarrow> server \<Rightarrow> emission list" where
  "file_open socket_id d now st =
     [\<lparr>recipients = socket_to socket_id (d_roomId d) (adapter st), event = ''file-opened'',
       body = FileOpened (d_filePath d) (js_or (d_username d) socket_id) now\<rparr>]"

definition file_content :: "string \<Rightarrow> data \<Rightarrow> nat \<Rightarrow> server \<Rightarrow> emission list" where
  "file_content socket_id d now st =
     [\<lparr>recipients = socket_to socket_id (d_roomId d) (adapter st), event = ''file-update'',
       body = FileUpdate (d_filePath d) (d_code d) (js_or (d_username d) socket_id) now\<rparr>]"

definition file_save :: "string \<Rightarrow> data \<Rightarrow> nat \<Rightarrow> server \<Rightarrow> emission list" where
  "file_save socket_id d now st =
     [\<lparr>recipients = io_to (d_roomId d) (adapter st), event = ''file-saved'',
       body = FileSaved (d_filePath d) (js_or (d_username d) socket_id) now\<rparr>]"

subsection \<open>The \<open>disconnect\<close> listener\<close>

definition disconnect :: "string \<Rightarrow> server \<Rightarrow> server \<times> emission list" where
  "disconnect socket_id st =
     (case getRoomForSocket socket_id (rooms st) of
        None \<Rightarrow> (st, [])
      | Some r \<Rightarrow>
          if r = [] then (st, [])
          else
            (case map_of (rooms st) r of
               None \<Rightarrow> (st, [])
             | Some room0 \<Rightarrow>
                 (case map_of room0 socket_id of
                    None \<Rightarrow> (st, [])
                  | Some usr \<Rightarrow>
                      let rm = AList.delete socket_id room0;
                          reg = AList.delete socket_id (userSocketMap st) in
                      if length rm = 0
                      then (st\<lparr>rooms := AList.delete r (rooms st), userSocketMap := reg\<rparr>, [])
                      else (st\<lparr>rooms := AList.update r rm (rooms st), userSocketMap := reg\<rparr>,
                            [\<lparr>recipients = io_to (Some r) (adapter st), event = ''user-left'',
                              body = UserLeft socket_id (Some (username usr))\<rparr>]))))"

subsection \<open>Dispatch\<close>

text \<open>
  The connection handler registers one listener for each of the event names below; a
  message under any other name finds no listener and is dropped.

  The other actions are the transport's own. \<open>Connect\<close> is a new connection, under
  an id not handed out before. \<open>Disconnect\<close> is a disconnect that closes the session
  (the client's or the server's own \<open>disconnect()\<close>); \<open>Drop\<close> is a loss of the
  connection (transport close or error, ping timeout), after which the strict server
  keeps the rooms of the socket as a session; both run the \<open>disconnect\<close> listener
  after the socket has left its rooms. \<open>Recover\<close> is the return of a lost connection
  under its old id: the socket is joined again to the rooms of its session and to the
  room of its id, the connection handler runs, and the directory is not touched. For
  how long a session is kept (\<open>maxDisconnectionDuration\<close>) is the transport's
  affair: \<open>Recover\<close> can happen for any session kept. The packets a recovered
  socket missed are sent to it again; that replay is not part of the emissions below,
  which are the deliveries made when the step runs.
\<close>

definition on_event :: "string \<Rightarrow> string \<Rightarrow> data \<Rightarrow> nat \<Rightarrow> server \<Rightarrow> server \<times> ack option \<times> emission list" where
  "on_event socket_id name d now st =
     (if name = ''join-request'' then join_request socket_id d now st
      else if name = ''code-change'' then (st, None, code_change socket_id d now st)
      else if name = ''send-message'' then (st, None, send_message socket_id d now st)
      else if name = ''cursor-move'' then (st, None, cursor_move socket_id d now st)
      else if name = ''file-open'' then (st, None, file_open socket_id d now st)
      else if name = ''file-content'' then (st, None, file_content socket_id d now st)
      else if name = ''file-save'' then (st, None, file_save socket_id d now st)
      else (st, None, []))"

datatype action =
    Connect string
  | Emit string string data nat
  | Disconnect string
  | Drop string
  | Recover string

definition rooms_of_socket :: "string \<Rightarrow> (string \<times> string) list \<Rightarrow> string list" where
  "rooms_of_socket socket_id ad = map snd (filter (\<lambda>p. fst p = socket_id) ad)"

definition join_all :: "string \<Rightarrow> string list \<Rightarrow> (string \<times> string) list \<Rightarrow> (string \<times> string) list" where
  "join_all socket_id rs ad = fold (socket_join socket_id) rs ad"

fun step :: "server \<Rightarrow> action \<Rightarrow> server \<times> ack option \<times> emission list" where
  "step st (Connect socket_id) =
     (if socket_id \<in> set (seen st) then (st, None, [])
      else (st\<lparr>adapter := socket_join socket_id socket_id (adapter st),
               sockets := sockets st @ [socket_id],
               seen := seen st @ [socket_id]\<rparr>, None, []))"
| "step st (Emit socket_id name d now) =
     (if socket_id \<in> set (sockets st) then on_event socket_id name d now st
      else (st, None, []))"
| "step st (Disconnect socket_id) =
     (if socket_id \<in> set (sockets st)
      then (case disconnect socket_id
                   (st\<lparr>adapter := leave_all socket_id (adapter st),
                       sockets := removeAll socket_id (sockets st)\<rparr>) of
              (st1, out) \<Rightarrow> (st1, None, out))
      else (st, None, []))"
| "step st (Drop socket_id) =
     (if socket_id \<in> set (sockets st)
      then (case disconnect socket_id
                   (st\<lparr>adapter := leave_all socket_id (adapter st),
                       sockets := removeAll socket_id (sockets st),
                       sessions := AList.update socket_id (rooms_of_socket socket_id (adapter st))
                                     (sessions st)\<rparr>) of
              (st1, out) \<Rightarrow> (st1, None, out))
      else (st, None, []))"
| "step st (Recover socket_id) =
     (if socket_id \<in> set (sockets st) then (st, None, [])
      else
        (case map_of (sessions st) socket_id of
           None \<Rightarrow> (st, None, [])
         | Some rs \<Rightarrow>
             (st\<lparr>adapter := socket_join socket_id socket_id (join_all socket_id rs (adapter st)),
                 sockets := sockets st @ [socket_id]\<rparr>, None, [])))"

inductive reachable :: "server \<Rightarrow> bool" where
  reachable_init: "reachable init_server"
| reachable_step: "reachable st \<Longrightarrow> reachable (fst (step st a))"

subsection \<open>The lenient server\<close>

text \<open>
  Its registry is \<open>rooms\<close> alone. The transport hands out a fresh id to every
  connection; \<open>l_seen\<close> holds the ids handed out so far, so that the entry a closed
  socket left in a room is never taken for a later connection.
\<close>

type_synonym lenient_room = "(string \<times> lenient_user) list"

record lenient_server =
  l_rooms :: "(string \<times> lenient_room) list"
  l_adapter :: "(string \<times> string) list"
  l_sockets :: "string list"
  l_seen :: "string list"

definition lenient_init :: lenient_server where
  "lenient_init = \<lparr>l_rooms = [], l_adapter = [], l_sockets = [], l_seen = []\<rparr>"

definition lenient_getUsersInRoom :: "string \<Rightarrow> (string \<times> lenient_room) list \<Rightarrow> lenient_user list" where
  "lenient_getUsersInRoom r rs = (case map_of rs r of None \<Rightarrow> [] | Some rm \<Rightarrow> map snd rm)"

fun getRoomId :: "string \<Rightarrow> (string \<times> lenient_room) list \<Rightarrow> string option" where
  "getRoomId socket_id [] = None"
| "getRoomId socket_id ((r, users) # rest) =
     (if has socket_id users then Some r else getRoomId socket_id rest)"

definition lenient_join_request :: "string \<Rightarrow> data \<Rightarrow> nat \<Rightarrow> lenient_server \<Rightarrow> lenient_server \<times> emission list" where
  "lenient_join_request socket_id d now st =
     (if \<not> truthy (d_roomId d)
      then (st, [\<lparr>recipients = io_to (Some socket_id) (l_adapter st), event = ''join-error'',
                  body = MessageP ''Room ID missing''\<rparr>])
      else
        (case d_roomId d of
           None \<Rightarrow> (st, [])
         | Some r \<Rightarrow>
             let ad = socket_join socket_id r (l_adapter st);
                 rooms1 = (if has r (l_rooms st) then l_rooms st else AList.update r [] (l_rooms st));
                 usr = \<lparr>l_id = socket_id, l_username = js_or (d_username d) ''Anonymous'',
                        l_joinedAt = now\<rparr>;
                 rm = (case map_of rooms1 r of None \<Rightarrow> [] | Some m \<Rightarrow> m);
                 rooms2 = AList.update r (AList.update socket_id usr rm) rooms1;
                 usersInRoom = lenient_getUsersInRoom r rooms2
             in (st\<lparr>l_rooms := rooms2, l_adapter := ad\<rparr>,
                 [\<lparr>recipients = io_to (Some socket_id) ad, event = ''join-success'',
                   body = JoinSuccess r usersInRoom\<rparr>,
                  \<lparr>recipients = socket_to socket_id (Some r) ad, event = ''user-joined'',
                   body = LenientUserJoined usr usersInRoom\<rparr>])))"

definition lenient_code_change :: "string \<Rightarrow> data \<Rightarrow> nat \<Rightarrow> lenient_server \<Rightarrow> emission list" where
  "lenient_code_change socket_id d now st =
     [\<lparr>recipients = socket_to socket_id (d_roomId d) (l_adapter st), event = ''code-update'',
       body = LenientCodeUpdate (d_code d) (d_cursorPos d) socket_id now\<rparr>]"

definition lenient_disconnect :: "string \<Rightarrow> lenient_server \<Rightarrow> lenient_server \<times> emission list" where
  "lenient_disconnect socket_id st =
     (case getRoomId socket_id (l_rooms st) of
        None \<Rightarrow> (st, [])
      | Some r \<Rightarrow>
          if r = [] then (st, [])
          else
            (case map_of (l_rooms st) r of
               None \<Rightarrow> (st, [])
             | Some room0 \<Rightarrow>
                 let rm = AList.delete socket_id room0 in
                 if length rm = 0
                 then (st\<lparr>l_rooms := AList.delete r (l_rooms st)\<rparr>, [])
                 else
                   (case map_of room0 socket_id of
                      None \<Rightarrow> (st\<lparr>l_rooms := AList.update r rm (l_rooms st)\<rparr>, [])
                    | Some usr \<Rightarrow>
                        (st\<lparr>l_rooms := AList.update r rm (l_rooms st)\<rparr>,
                         [\<lparr>recipients = io_to (Some r) (l_adapter st), event = ''user-left'',
                           body = UserLeft socket_id (Some (l_username usr))\<rparr>]))))"

text \<open>
  The lenient connection handler listens for \<open>join-request\<close>, \<open>code-change\<close>,
  \<open>disconnect\<close> and \<open>ping\<close>; \<open>ping\<close> only calls its callback back. The
  lenient server keeps no sessions: a lost connection is a disconnect, and nothing
  returns under an old id.
\<close>

definition lenient_on_event :: "string \<Rightarrow> string \<Rightarrow> data \<Rightarrow> nat \<Rightarrow> lenient_server \<Rightarrow> lenient_server \<times> emission list" where
  "lenient_on_event socket_id name d now st =
     (if name = ''join-request'' then lenient_join_request socket_id d now st
      else if name = ''code-change'' then (st, lenient_code_change socket_id d now st)
      else (st, []))"

fun lenient_step :: "lenient_server \<Rightarrow> action \<Rightarrow> lenient_server \<times> emission list" where
  "lenient_step st (Connect socket_id) =
     (if socket_id \<in> set (l_seen st) then (st, [])
      else (st\<lparr>l_adapter := socket_join socket_id socket_id (l_adapter st),
               l_sockets := l_sockets st @ [socket_id],
               l_seen := l_seen st @ [socket_id]\<rparr>, []))"
| "lenient_step st (Emit socket_id name d now) =
     (if socket_id \<in> set (l_sockets st) then lenient_on_event socket_id name d now st
      else (st, []))"
| "lenient_step st (Disconnect socket_id) =
     (if socket_id \<in> set (l_sockets st)
      then lenient_disconnect socket_id
             (st\<lparr>l_adapter := leave_all socket_id (l_adapter st),
                 l_sockets := removeAll socket_id (l_sockets st)\<rparr>)
      else (st, []))"
| "lenient_step st (Drop socket_id) =
     (if socket_id \<in> set (l_sockets st)
      then lenient_disconnect socket_id
             (st\<lparr>l_adapter := leave_all socket_id (l_adapter st),
                 l_sockets := removeAll socket_id (l_sockets st)\<rparr>)
      else (st, []))"
| "lenient_step st (Recover socket_id) = (st, [])"

inductive lenient_reachable :: "lenient_server \<Rightarrow> bool" where
  lenient_reachable_init: "lenient_reachable lenient_init"
| lenient_reachable_step: "lenient_reachable st \<Longrightarrow> lenient_reachable (fst (lenient_step st a))"

definition lenient_run :: "lenient_server \<Rightarrow> action list \<Rightarrow> lenient_server" where
  "lenient_run st as = foldl (\<lambda>s a. fst (lenient_step s a)) st as"

subsection \<open>The client's \<open>leaveRoom\<close>\<close>

text \<open>
  \<open>leaveRoom\<close> of the client's socket context: it emits \<open>leave-room\<close> and
  closes the socket, and does nothing for a falsy room id.
\<close>

definition leaveRoom :: "string \<Rightarrow> jsval \<Rightarrow> nat \<Rightarrow> action list" where
  "leaveRoom socket_id r now =
     (if truthy r
      then [Emit socket_id ''leave-room''
              \<lparr>d_roomId = r, d_username = None, d_code = None, d_cursorPos = None,
               d_filePath = None, d_text = None, d_x = None, d_y = None\<rparr> now,
            Disconnect socket_id]
      else [])"

section \<open>Invariants of the reachable states\<close>

text \<open>
  \<open>room_ok\<close>: a room of the directory has a non-empty name and at least one member,
  its keys are distinct, every record is filed under its own socket id and carries the
  room's name and a non-empty username, and the usernames are pairwise distinct.
  \<open>dir_ok\<close>: room names are distinct, every room is \<open>room_ok\<close>, and no socket is
  a member of two rooms. \<open>mirrored\<close>: every member of a directory room is joined to
  the transport room of the same name and is filed in \<open>userSocketMap\<close> under the
  same record. \<open>without s rs\<close> is the directory after the socket \<open>s\<close> has been
  removed from the room \<open>getRoomForSocket\<close> finds for it; both the implicit leave of
  \<open>join-request\<close> and the \<open>disconnect\<close> listener compute it.
\<close>

definition room_ok :: "string \<Rightarrow> room \<Rightarrow> bool" where
  "room_ok r m \<longleftrightarrow>
     r \<noteq> [] \<and> m \<noteq> [] \<and> distinct (map fst m) \<and>
     (\<forall>p\<in>set m. uid (snd p) = fst p \<and> roomId (snd p) = r \<and> username (snd p) \<noteq> []) \<and>
     distinct (map (\<lambda>p. username (snd p)) m)"

definition dir_ok :: "(string \<times> room) list \<Rightarrow> bool" where
  "dir_ok rs \<longleftrightarrow>
     distinct (map fst rs) \<and>
     (\<forall>p\<in>set rs. room_ok (fst p) (snd p)) \<and>
     (\<forall>p\<in>set rs. \<forall>q\<in>set rs. \<forall>s. has s (snd p) \<and> has s (snd q) \<longrightarrow> fst p = fst q)"

definition without :: "string \<Rightarrow> (string \<times> room) list \<Rightarrow> (string \<times> room) list" where
  "without s rs =
     (case getRoomForSocket s rs of
        None \<Rightarrow> rs
      | Some cur \<Rightarrow>
          (case map_of rs cur of
             None \<Rightarrow> rs
           | Some m \<Rightarrow> if AList.delete s m = [] then AList.delete cur rs
                       else AList.update cur (AList.delete s m) rs))"

definition mirrored :: "server \<Rightarrow> bool" where
  "mirrored st \<longleftrightarrow>
     (\<forall>p\<in>set (rooms st). \<forall>q\<in>set (snd p).
        (fst q, fst p) \<in> set (adapter st) \<and> map_of (userSocketMap st) (fst q) = Some (snd q))"

definition invariant :: "server \<Rightarrow> bool" where
  "invariant st \<longleftrightarrow> dir_ok (rooms st) \<and> mirrored st"

definition joined_user :: "string \<Rightarrow> string \<Rightarrow> string \<Rightarrow> nat \<Rightarrow> user" where
  "joined_user s r n now = \<lparr>uid = s, username = n, joinedAt = now, roomId = r\<rparr>"

definition room_of :: "string \<Rightarrow> (string \<times> room) list \<Rightarrow> room" where
  "room_of r rs = (case map_of rs r of None \<Rightarrow> [] | Some m \<Rightarrow> m)"

text \<open>
  Runs of the servers and the states the examples use: \<open>alice\<close> on socket \<open>A\<close>
  and \<open>bob\<close> on socket \<open>B\<close> in room \<open>r1\<close> (\<open>two_users\<close>), with a third
  connected socket \<open>C\<close> in no room (\<open>with_guest\<close>), and \<open>alice\<close> alone
  (\<open>one_user\<close>).
\<close>

definition run :: "server \<Rightarrow> action list \<Rightarrow> server" where
  "run st as = foldl (\<lambda>s a. fst (step s a)) st as"

definition join_data :: "string \<Rightarrow> string \<Rightarrow> data" where
  "join_data r n = \<lparr>d_roomId = Some r, d_username = Some n, d_code = None, d_cursorPos = None,
                    d_filePath = None, d_text = None, d_x = None, d_y = None\<rparr>"

definition two_users :: server where
  "two_users = run init_server
     [Connect ''A'', Connect ''B'',
      Emit ''A'' ''join-request'' (join_data ''r1'' ''alice'') 1,
      Emit ''B'' ''join-request'' (join_data ''r1'' ''bob'') 2]"

definition one_user :: server where
  "one_user = run init_server [Connect ''A'', Emit ''A'' ''join-request'' (join_data ''r1'' ''alice'') 1]"

definition with_guest :: server where
  "with_guest = fst (step two_users (Connect ''C''))"

definition code_data :: "string \<Rightarrow> string \<Rightarrow> data" where
  "code_data r c = \<lparr>d_roomId = Some r, d_username = None, d_code = Some c, d_cursorPos = Some ''4'',
                    d_filePath = Some ''main.js'', d_text = None, d_x = None, d_y = None\<rparr>"

definition room_data :: "string \<Rightarrow> data" where
  "room_data r = \<lparr>d_roomId = Some r, d_username = None, d_code = None, d_cursorPos = None,
                  d_filePath = None, d_text = None, d_x = None, d_y = None\<rparr>"

text \<open>
  Room ids are chosen by the clients, and the ids of the sockets are strings as well,
  sent to the other members with every \<open>user-joined\<close>. In \<open>bob_in_room_A\<close>
  socket \<open>B\<close> has joined the room whose id is the id of socket \<open>A\<close>, while
  \<open>A\<close> is in no room; in \<open>both_in_room_A\<close> socket \<open>A\<close> has joined that
  room as well; in \<open>alice_moved\<close> socket \<open>A\<close> has gone on to room \<open>r2\<close>.
\<close>

definition bob_in_room_A :: server where
  "bob_in_room_A = run init_server
     [Connect ''A'', Connect ''B'', Emit ''B'' ''join-request'' (join_data ''A'' ''bob'') 1]"

definition both_in_room_A :: server where
  "both_in_room_A = run bob_in_room_A [Emit ''A'' ''join-request'' (join_data ''A'' ''alice'') 2]"

definition alice_moved :: server where
  "alice_moved = run both_in_room_A [Emit ''A'' ''join-request'' (join_data ''r2'' ''alice'') 3]"

text \<open>
  In \<open>bob_recovered\<close> the connection of \<open>B\<close> was lost and has returned: the
  \<open>disconnect\<close> listener has removed \<open>B\<close> from the directory, and the transport
  has joined it again to the rooms of its session.
\<close>

definition bob_recovered :: server where
  "bob_recovered = run two_users [Drop ''B'', Recover ''B'']"

text \<open>
  The lenient server keeps less: every record is filed under its own socket id, which
  the transport has handed out; a member whose socket is still connected is joined to
  the transport room of the same name; and a connected socket is in the room named by
  its own id.
\<close>

definition lenient_invariant :: "lenient_server \<Rightarrow> bool" where
  "lenient_invariant st \<longleftrightarrow>
     (\<forall>p\<in>set (l_rooms st). \<forall>q\<in>set (snd p).
        l_id (snd q) = fst q \<and> fst q \<in> set (l_seen st) \<and>
        (fst q \<in> set (l_sockets st) \<longrightarrow> (fst q, fst p) \<in> set (l_adapter st))) \<and>
     (\<forall>s\<in>set (l_sockets st). s \<in> set (l_seen st) \<and> (s, s) \<in> set (l_adapter st))"

definition lenient_one :: lenient_server where
  "lenient_one = lenient_run lenient_init [Connect ''A'']"

definition lenient_two_bobs :: lenient_server where
  "lenient_two_bobs = lenient_run lenient_init
     [Connect ''A'', Connect ''B'',
      Emit ''A'' ''join-request'' (join_data ''r1'' ''bob'') 1,
      Emit ''B'' ''join-request'' (join_data ''r1'' ''bob'') 2]"

definition lenient_two_rooms :: lenient_server where
  "lenient_two_rooms = lenient_run lenient_init
     [Connect ''A'',
      Emit ''A'' ''join-request'' (join_data ''r1'' ''alice'') 1,
      Emit ''A'' ''join-request'' (join_data ''r2'' ''alice'') 2]"

definition lenient_guest :: lenient_server where
  "lenient_guest = lenient_run lenient_init
     [Connect ''A'', Connect ''B'', Connect ''C'',
      Emit ''A'' ''join-request'' (join_data ''r1'' ''alice'') 1,
      Emit ''B'' ''join-request'' (join_data ''r1'' ''bob'') 2]"

text \<open>
  In \<open>lenient_bob_in_room_C\<close> socket \<open>B\<close> has joined room \<open>r1\<close> and then the
  room whose id is the id of socket \<open>C\<close>; the lenient server leaves it in both.
\<close>

definition lenient_bob_in_room_C :: lenient_server where
  "lenient_bob_in_room_C = lenient_run lenient_init
     [Connect ''B'', Connect ''C'',
      Emit ''B'' ''join-request'' (join_data ''r1'' ''bob'') 1,
      Emit ''B'' ''join-request'' (join_data ''C'' ''bob'') 2]"

section \<open>Association lists and the room lookup\<close>

lemma has_iff: "has k m \<longleftrightarrow> k \<in> fst ` set m"
  by (simp add: has_def map_of_eq_None_iff)

lemma set_delete: "set (AList.delete k al) = {x \<in> set al. fst x \<noteq> k}"
  by (auto simp: AList.delete_eq)

lemma set_update: "distinct (map fst al) \<Longrightarrow> set (AList.update k v al) = insert (k, v) {x \<in> set al. fst x \<noteq> k}"
  by (induction al) (auto simp: rev_image_eqI)

lemma update_fresh: "k \<notin> fst ` set al \<Longrightarrow> AList.update k v al = al @ [(k, v)]"
  by (induction al) auto

lemma getRoomForSocket_None: "getRoomForSocket s rs = None \<longleftrightarrow> (\<forall>p\<in>set rs. \<not> has s (snd p))"
proof (induction rs)
  case Nil
  show ?case by simp
next
  case (Cons p rs)
  obtain r m where p: "p = (r, m)" by (cases p)
  show ?case using Cons by (simp add: p)
qed

lemma getRoomForSocket_Some: "getRoomForSocket s rs = Some r \<Longrightarrow> \<exists>m. (r, m) \<in> set rs \<and> has s m"
  by (induction rs) (auto split: if_splits)

lemma dir_ok_lookup: "dir_ok rs \<Longrightarrow> (r, m) \<in> set rs \<Longrightarrow> map_of rs r = Some m"
  by (simp add: dir_ok_def)

lemma getRoomForSocket_member:
  assumes "dir_ok rs"
  shows "getRoomForSocket s rs = Some r \<longleftrightarrow> (\<exists>m. map_of rs r = Some m \<and> has s m)"
proof
  assume "getRoomForSocket s rs = Some r"
  then obtain m where "(r, m) \<in> set rs" "has s m" using getRoomForSocket_Some by blast
  with assms show "\<exists>m. map_of rs r = Some m \<and> has s m" by (auto simp: dir_ok_lookup)
next
  assume "\<exists>m. map_of rs r = Some m \<and> has s m"
  then obtain m where m: "(r, m) \<in> set rs" "has s m" by (auto dest: map_of_SomeD)
  have "\<exists>p\<in>set rs. has s (snd p)" using m by (intro bexI[of _ "(r, m)"]) simp_all
  then have "getRoomForSocket s rs \<noteq> None" by (simp add: getRoomForSocket_None)
  then obtain r' where r': "getRoomForSocket s rs = Some r'" by auto
  then obtain m' where m': "(r', m') \<in> set rs" "has s m'" using getRoomForSocket_Some by blast
  have "\<forall>p\<in>set rs. \<forall>q\<in>set rs. \<forall>s. has s (snd p) \<and> has s (snd q) \<longrightarrow> fst p = fst q"
    using assms by (simp add: dir_ok_def)
  from this m'(1) m(1) m'(2) m(2) have "r' = r" by fastforce
  with r' show "getRoomForSocket s rs = Some r" by simp
qed

lemma in_without:
  assumes "dir_ok rs"
  shows "(r, m') \<in> set (without s rs) \<longleftrightarrow>
         (\<exists>m. (r, m) \<in> set rs \<and> m' = AList.delete s m \<and> m' \<noteq> [])"
proof -
  have d: "distinct (map fst rs)" using assms by (simp add: dir_ok_def)
  have ne: "m \<noteq> []" if "(r, m) \<in> set rs" for r m
    using that assms by (fastforce simp: dir_ok_def room_ok_def)
  have one: "\<forall>p\<in>set rs. \<forall>q\<in>set rs. \<forall>s. has s (snd p) \<and> has s (snd q) \<longrightarrow> fst p = fst q"
    using assms by (simp add: dir_ok_def)
  show ?thesis
  proof (cases "getRoomForSocket s rs")
    case None
    then have no: "\<forall>p\<in>set rs. \<not> has s (snd p)" by (simp add: getRoomForSocket_None)
    have keep: "AList.delete s m = m" if "(r, m) \<in> set rs" for r m
      using no that by (fastforce simp: has_iff)
    have "without s rs = rs" using None by (simp add: without_def)
    then show ?thesis using keep ne by metis
  next
    case (Some cur)
    then obtain m0 where m0: "map_of rs cur = Some m0" "has s m0"
      using assms by (auto simp: getRoomForSocket_member)
    have in0: "(cur, m0) \<in> set rs" using m0 by (auto dest: map_of_SomeD)
    have keep: "AList.delete s m = m" if "(r, m) \<in> set rs" "r \<noteq> cur" for r m
    proof -
      have "\<not> has s m"
      proof
        assume "has s m"
        with one that(1) in0 m0(2) have "r = cur" by fastforce
        with that(2) show False by simp
      qed
      then show ?thesis by (simp add: has_iff)
    qed
    have same: "m = m0" if "(cur, m) \<in> set rs" for m
      using that d m0 by simp
    show ?thesis
    proof (cases "AList.delete s m0 = []")
      case True
      then have w: "without s rs = AList.delete cur rs" using Some m0 by (simp add: without_def)
      show ?thesis
      proof (cases "r = cur")
        case True
        have "(r, m') \<notin> set (without s rs)" using True w by (simp add: set_delete)
        moreover have "\<not> (\<exists>m. (r, m) \<in> set rs \<and> m' = AList.delete s m \<and> m' \<noteq> [])"
          using True same \<open>AList.delete s m0 = []\<close> by auto
        ultimately show ?thesis by simp
      next
        case False
        have "(r, m') \<in> set (without s rs) \<longleftrightarrow> (r, m') \<in> set rs" using False w by (simp add: set_delete)
        then show ?thesis using False keep ne by metis
      qed
    next
      case False
      then have w: "without s rs = AList.update cur (AList.delete s m0) rs" using Some m0 by (simp add: without_def)
      show ?thesis
      proof (cases "r = cur")
        case True
        have "(r, m') \<in> set (without s rs) \<longleftrightarrow> m' = AList.delete s m0"
          using True w d by (auto simp: set_update)
        then show ?thesis using True same in0 False by metis
      next
        case r: False
        have "(r, m') \<in> set (without s rs) \<longleftrightarrow> (r, m') \<in> set rs" using r w d by (simp add: set_update)
        then show ?thesis using r keep ne by metis
      qed
    qed
  qed
qed

lemma distinct_without: "distinct (map fst rs) \<Longrightarrow> distinct (map fst (without s rs))"
  by (simp add: without_def distinct_update distinct_delete split: option.splits)

lemma has_delete: "has x (AList.delete s m) \<longleftrightarrow> has x m \<and> x \<noteq> s"
  by (auto simp: has_iff set_delete)

lemma room_ok_delete: "room_ok r m \<Longrightarrow> AList.delete s m \<noteq> [] \<Longrightarrow> room_ok r (AList.delete s m)"
  unfolding room_ok_def
  by (simp add: distinct_delete set_delete) (simp add: AList.delete_eq distinct_map_filter)

lemma dir_ok_without:
  assumes "dir_ok rs"
  shows "dir_ok (without s rs)"
proof -
  have 1: "distinct (map fst (without s rs))" using assms by (simp add: dir_ok_def distinct_without)
  have 2: "room_ok (fst p) (snd p)" if h: "p \<in> set (without s rs)" for p
  proof -
    obtain r m' where p: "p = (r, m')" by (cases p)
    have "\<exists>m. (r, m) \<in> set rs \<and> m' = AList.delete s m \<and> m' \<noteq> []"
      using h p assms by (simp add: in_without)
    then obtain m where m: "(r, m) \<in> set rs" "m' = AList.delete s m" "m' \<noteq> []" by blast
    have "room_ok r m" using m(1) assms by (fastforce simp: dir_ok_def)
    then show ?thesis using p m by (simp add: room_ok_delete)
  qed
  have 3: "fst p = fst q" if h: "p \<in> set (without s rs)" "q \<in> set (without s rs)" "has x (snd p)" "has x (snd q)" for p q x
  proof -
    obtain r m' where p: "p = (r, m')" by (cases p)
    obtain r2 m2' where q: "q = (r2, m2')" by (cases q)
    have "\<exists>m. (r, m) \<in> set rs \<and> m' = AList.delete s m \<and> m' \<noteq> []"
      using h(1) p assms by (simp add: in_without)
    then obtain m where m: "(r, m) \<in> set rs" "m' = AList.delete s m" by blast
    have "\<exists>m. (r2, m) \<in> set rs \<and> m2' = AList.delete s m \<and> m2' \<noteq> []"
      using h(2) q assms by (simp add: in_without)
    then obtain m2 where m2: "(r2, m2) \<in> set rs" "m2' = AList.delete s m2" by blast
    have "has x m" "has x m2" using h(3,4) p q m m2 by (simp_all add: has_delete)
    moreover have "\<forall>p\<in>set rs. \<forall>q\<in>set rs. \<forall>s. has s (snd p) \<and> has s (snd q) \<longrightarrow> fst p = fst q"
      using assms by (simp add: dir_ok_def)
    ultimately have "r = r2" using m(1) m2(1) by fastforce
    then show ?thesis using p q by simp
  qed
  show ?thesis unfolding dir_ok_def using 1 2 3 by blast
qed

lemma not_in_without:
  assumes "dir_ok rs" "p \<in> set (without s rs)"
  shows "\<not> has s (snd p)"
proof -
  obtain r m' where p: "p = (r, m')" by (cases p)
  have "\<exists>m. (r, m) \<in> set rs \<and> m' = AList.delete s m \<and> m' \<noteq> []"
    using p assms by (simp add: in_without)
  then obtain m where "m' = AList.delete s m" by blast
  then show ?thesis using p by (simp add: has_delete)
qed

lemma map_of_without:
  assumes "dir_ok rs"
  shows "map_of (without s rs) r =
         (case map_of rs r of None \<Rightarrow> None
          | Some m \<Rightarrow> if AList.delete s m = [] then None else Some (AList.delete s m))"
proof -
  have d: "distinct (map fst rs)" using assms by (simp add: dir_ok_def)
  have d': "distinct (map fst (without s rs))" using d by (rule distinct_without)
  show ?thesis
  proof (cases "map_of rs r")
    case None
    then have "\<And>m. (r, m) \<notin> set rs" using d by (metis map_of_eq_Some_iff option.distinct(1))
    then have "\<And>m'. (r, m') \<notin> set (without s rs)" using assms by (simp add: in_without)
    then have "map_of (without s rs) r = None" by (metis map_of_SomeD not_Some_eq)
    then show ?thesis using None by simp
  next
    case (Some m)
    then have m: "(r, m) \<in> set rs" by (auto dest: map_of_SomeD)
    have uniq: "\<And>m2. (r, m2) \<in> set rs \<Longrightarrow> m2 = m" using d Some by simp
    show ?thesis
    proof (cases "AList.delete s m = []")
      case True
      have "\<And>m'. (r, m') \<notin> set (without s rs)" using assms uniq True by (auto simp: in_without)
      then have "map_of (without s rs) r = None" by (metis map_of_SomeD not_Some_eq)
      then show ?thesis using Some True by simp
    next
      case False
      have "(r, AList.delete s m) \<in> set (without s rs)" using assms m False by (auto simp: in_without)
      then have "map_of (without s rs) r = Some (AList.delete s m)" using d' by simp
      then show ?thesis using Some False by simp
    qed
  qed
qed

lemma dir_ok_room_name:
  assumes "dir_ok rs" "getRoomForSocket s rs = Some r"
  shows "r \<noteq> []"
proof -
  obtain m where "(r, m) \<in> set rs" using assms(2) getRoomForSocket_Some by blast
  then show ?thesis using assms(1) by (fastforce simp: dir_ok_def room_ok_def)
qed

lemma rooms_leave_existing:
  "dir_ok (rooms st) \<Longrightarrow> rooms (fst (leave_existing s st)) = without s (rooms st)"
  by (auto simp: leave_existing_def without_def Let_def dir_ok_room_name split: option.splits)

lemma registry_leave_existing: "userSocketMap (fst (leave_existing s st)) = userSocketMap st"
  by (simp add: leave_existing_def Let_def split: option.splits)

lemma sockets_leave_existing: "sockets (fst (leave_existing s st)) = sockets st"
  by (simp add: leave_existing_def Let_def split: option.splits)

lemma adapter_leave_existing:
  "p \<in> set (adapter st) \<Longrightarrow> fst p \<noteq> s \<Longrightarrow> p \<in> set (adapter (fst (leave_existing s st)))"
  by (cases p) (auto simp: leave_existing_def Let_def socket_leave_def split: option.splits)

lemma rooms_disconnect:
  assumes "dir_ok (rooms st)"
  shows "rooms (fst (disconnect s st)) = without s (rooms st)"
proof (cases "getRoomForSocket s (rooms st)")
  case None
  then show ?thesis by (simp add: disconnect_def without_def)
next
  case (Some r)
  then obtain m where m: "map_of (rooms st) r = Some m" "has s m"
    using assms by (auto simp: getRoomForSocket_member)
  then obtain u where u: "map_of m s = Some u" by (auto simp: has_def)
  have "r \<noteq> []" using assms Some by (rule dir_ok_room_name)
  then show ?thesis using Some m u by (simp add: disconnect_def without_def Let_def)
qed

lemma adapter_disconnect: "adapter (fst (disconnect s st)) = adapter st"
  by (simp add: disconnect_def Let_def split: option.splits)

lemma sockets_disconnect: "sockets (fst (disconnect s st)) = sockets st"
  by (simp add: disconnect_def Let_def split: option.splits)

lemma registry_disconnect:
  "x \<noteq> s \<Longrightarrow> map_of (userSocketMap (fst (disconnect s st))) x = map_of (userSocketMap st) x"
  by (simp add: disconnect_def Let_def split: option.splits)

lemma mirrored_shrink:
  assumes ok: "dir_ok (rooms st)" and mir: "mirrored st"
    and rs: "rooms st' = without s (rooms st)"
    and ad: "\<And>p. p \<in> set (adapter st) \<Longrightarrow> fst p \<noteq> s \<Longrightarrow> p \<in> set (adapter st')"
    and reg: "\<And>x. x \<noteq> s \<Longrightarrow> map_of (userSocketMap st') x = map_of (userSocketMap st) x"
  shows "mirrored st'"
  unfolding mirrored_def
proof (intro ballI)
  fix p q assume p: "p \<in> set (rooms st')" and q: "q \<in> set (snd p)"
  obtain r m' where pe: "p = (r, m')" by (cases p)
  have "\<exists>m. (r, m) \<in> set (rooms st) \<and> m' = AList.delete s m \<and> m' \<noteq> []"
    using p pe rs ok by (simp add: in_without)
  then obtain m where m: "(r, m) \<in> set (rooms st)" "m' = AList.delete s m" by blast
  have qm: "q \<in> set m" "fst q \<noteq> s" using q pe m(2) by (simp_all add: set_delete)
  have old: "(fst q, r) \<in> set (adapter st) \<and> map_of (userSocketMap st) (fst q) = Some (snd q)"
    using mir m(1) qm(1) unfolding mirrored_def by fastforce
  show "(fst q, fst p) \<in> set (adapter st') \<and> map_of (userSocketMap st') (fst q) = Some (snd q)"
    using old qm(2) ad[of "(fst q, r)"] reg[of "fst q"] pe by simp
qed

lemma rooms_commit_join:
  "rooms (fst (commit_join s r n now st)) =
     AList.update r (AList.update s (joined_user s r n now) (room_of r (rooms st))) (rooms st)"
  by (simp add: commit_join_def Let_def has_def joined_user_def room_of_def update_conv')

lemma registry_commit_join:
  "userSocketMap (fst (commit_join s r n now st)) = AList.update s (joined_user s r n now) (userSocketMap st)"
  by (simp add: commit_join_def Let_def joined_user_def)

lemma adapter_commit_join:
  "adapter (fst (commit_join s r n now st)) = socket_join s r (adapter st)"
  by (simp add: commit_join_def Let_def)

lemma sockets_commit_join: "sockets (fst (commit_join s r n now st)) = sockets st"
  by (simp add: commit_join_def Let_def)

lemma room_of_in: "distinct (map fst rs) \<Longrightarrow> (r, m) \<in> set rs \<Longrightarrow> room_of r rs = m"
  by (simp add: room_of_def)

lemma room_of_ok: "dir_ok rs \<Longrightarrow> room_of r rs \<noteq> [] \<Longrightarrow> room_ok r (room_of r rs)"
  by (auto simp: room_of_def dir_ok_def split: option.splits dest!: map_of_SomeD)

lemma room_of_absent: "dir_ok rs \<Longrightarrow> room_of r rs = [] \<Longrightarrow> (r, m) \<notin> set rs"
  by (auto simp: room_of_def dir_ok_def room_ok_def split: option.splits)

lemma room_of_mem: "room_of r rs \<noteq> [] \<Longrightarrow> (r, room_of r rs) \<in> set rs"
  by (auto simp: room_of_def split: option.splits dest: map_of_SomeD)

lemma dir_ok_add:
  assumes ok: "dir_ok rs"
    and fresh: "\<And>p. p \<in> set rs \<Longrightarrow> \<not> has s (snd p)"
    and r: "r \<noteq> []" and n: "n \<noteq> []"
    and free: "\<And>q. q \<in> set (room_of r rs) \<Longrightarrow> username (snd q) \<noteq> n"
  shows "dir_ok (AList.update r (AList.update s (joined_user s r n now) (room_of r rs)) rs)"
proof -
  let ?u = "joined_user s r n now"
  let ?m = "room_of r rs"
  let ?m' = "AList.update s ?u ?m"
  have d: "distinct (map fst rs)" using ok by (simp add: dir_ok_def)
  have sm: "s \<notin> fst ` set ?m"
  proof (cases "?m = []")
    case True then show ?thesis by simp
  next
    case False
    then have "(r, ?m) \<in> set rs" by (rule room_of_mem)
    then show ?thesis using fresh[of "(r, ?m)"] by (simp add: has_iff)
  qed
  then have m': "?m' = ?m @ [(s, ?u)]" by (rule update_fresh)
  have okm: "room_ok r ?m'"
  proof (cases "?m = []")
    case True
    then show ?thesis using r n by (simp add: m' room_ok_def joined_user_def)
  next
    case False
    then have "room_ok r ?m" using ok by (simp add: room_of_ok)
    then show ?thesis using r n sm free unfolding m' room_ok_def
      by (auto simp: joined_user_def)
  qed
  have set': "set (AList.update r ?m' rs) = insert (r, ?m') {x \<in> set rs. fst x \<noteq> r}"
    using d by (rule set_update)
  have 1: "distinct (map fst (AList.update r ?m' rs))" using d by (simp add: distinct_update)
  have 2: "room_ok (fst p) (snd p)" if h: "p \<in> set (AList.update r ?m' rs)" for p
    using h okm ok unfolding set' dir_ok_def by auto
  have hm': "has x ?m' \<longleftrightarrow> x = s \<or> has x ?m" for x
    by (auto simp: has_iff m')
  have one: "\<forall>p\<in>set rs. \<forall>q\<in>set rs. \<forall>s. has s (snd p) \<and> has s (snd q) \<longrightarrow> fst p = fst q"
    using ok by (simp add: dir_ok_def)
  have in_r: "fst q = r" if h: "q \<in> set rs" "has x (snd q)" "has x ?m'" for q x
  proof -
    have "x \<noteq> s" using fresh[OF h(1)] h(2) by auto
    then have hx: "has x ?m" using h(3) hm' by simp
    then have "?m \<noteq> []" by (auto simp: has_iff)
    then have "(r, ?m) \<in> set rs" by (rule room_of_mem)
    with one h(1) h(2) hx show ?thesis by fastforce
  qed
  have 3: "fst p = fst q" if h: "p \<in> set (AList.update r ?m' rs)" "q \<in> set (AList.update r ?m' rs)"
      "has x (snd p)" "has x (snd q)" for p q x
  proof -
    consider "p = (r, ?m')" "q = (r, ?m')"
      | "p = (r, ?m')" "q \<in> set rs"
      | "p \<in> set rs" "q = (r, ?m')"
      | "p \<in> set rs" "q \<in> set rs"
      using h(1,2) unfolding set' by auto
    then show ?thesis
    proof cases
      case 1 then show ?thesis by simp
    next
      case 2 then show ?thesis using in_r[of q x] h(3,4) by simp
    next
      case 3 then show ?thesis using in_r[of p x] h(3,4) by simp
    next
      case 4 then show ?thesis using one h(3,4) by fastforce
    qed
  qed
  show ?thesis unfolding dir_ok_def using 1 2 3 by blast
qed

lemma mirrored_add:
  assumes d: "distinct (map fst (rooms st))" and mir: "mirrored st"
    and rs: "rooms st' = AList.update r (AList.update s u (room_of r (rooms st))) (rooms st)"
    and dm: "distinct (map fst (room_of r (rooms st)))"
    and ad: "set (adapter st') = insert (s, r) (set (adapter st))"
    and reg: "userSocketMap st' = AList.update s u (userSocketMap st)"
    and fresh: "\<And>p. p \<in> set (rooms st) \<Longrightarrow> \<not> has s (snd p)"
  shows "mirrored st'"
  unfolding mirrored_def
proof (intro ballI)
  fix p q assume p: "p \<in> set (rooms st')" and q: "q \<in> set (snd p)"
  let ?m = "room_of r (rooms st)"
  have set': "set (rooms st') = insert (r, AList.update s u ?m) {x \<in> set (rooms st). fst x \<noteq> r}"
    unfolding rs using d by (rule set_update)
  have old: "(fst q, fst p') \<in> set (adapter st') \<and> map_of (userSocketMap st') (fst q) = Some (snd q)"
    if h: "p' \<in> set (rooms st)" "q \<in> set (snd p')" for p'
  proof -
    have "has (fst q) (snd p')" using h(2) by (auto simp: has_iff)
    then have "fst q \<noteq> s" using fresh[OF h(1)] by auto
    moreover have "(fst q, fst p') \<in> set (adapter st) \<and> map_of (userSocketMap st) (fst q) = Some (snd q)"
      using mir h unfolding mirrored_def by blast
    ultimately show ?thesis by (simp add: ad reg update_conv')
  qed
  consider "p = (r, AList.update s u ?m)" | "p \<in> set (rooms st)" using p unfolding set' by auto
  then show "(fst q, fst p) \<in> set (adapter st') \<and> map_of (userSocketMap st') (fst q) = Some (snd q)"
  proof cases
    case 1
    then have "q = (s, u) \<or> (q \<in> set ?m \<and> fst q \<noteq> s)" using q dm by (auto simp: set_update)
    then show ?thesis
    proof
      assume "q = (s, u)"
      then show ?thesis using 1 by (simp add: ad reg update_conv')
    next
      assume h: "q \<in> set ?m \<and> fst q \<noteq> s"
      then have "?m \<noteq> []" by auto
      then have "(r, ?m) \<in> set (rooms st)" by (rule room_of_mem)
      then show ?thesis using old[of "(r, ?m)"] h 1 by simp
    qed
  next
    case 2
    then show ?thesis using old q by blast
  qed
qed

lemma set_socket_join: "set (socket_join s r ad) = insert (s, r) (set ad)"
  by (auto simp: socket_join_def)

lemma find_None_free:
  assumes ok: "dir_ok rs"
    and f: "find (\<lambda>u. username u = n \<and> uid u \<noteq> s) (getUsersInRoom r rs) = None"
    and q: "q \<in> set (room_of r (without s rs))"
  shows "username (snd q) \<noteq> n"
proof -
  have "map_of (without s rs) r \<noteq> None" using q by (cases "map_of (without s rs) r") (simp_all add: room_of_def)
  then obtain m where m: "map_of rs r = Some m" "room_of r (without s rs) = AList.delete s m"
    using ok by (auto simp: map_of_without room_of_def split: option.splits if_splits)
  have qm: "q \<in> set m" "fst q \<noteq> s" using q m(2) by (simp_all add: set_delete)
  have "(r, m) \<in> set rs" using m(1) by (auto dest: map_of_SomeD)
  then have "room_ok r m" using ok by (fastforce simp: dir_ok_def)
  then have "uid (snd q) = fst q" using qm(1) by (simp add: room_ok_def)
  moreover have "snd q \<in> set (getUsersInRoom r rs)" using m(1) qm(1) by (simp add: getUsersInRoom_def)
  ultimately show ?thesis using f qm(2) by (auto simp: find_None_iff)
qed

lemma invariant_leave_existing:
  assumes "invariant st"
  shows "invariant (fst (leave_existing s st))"
  unfolding invariant_def
proof
  show "dir_ok (rooms (fst (leave_existing s st)))"
    using assms by (simp add: invariant_def rooms_leave_existing dir_ok_without)
  show "mirrored (fst (leave_existing s st))"
  proof (rule mirrored_shrink[of st _ s])
    show "dir_ok (rooms st)" using assms by (simp add: invariant_def)
    then show "rooms (fst (leave_existing s st)) = without s (rooms st)" by (rule rooms_leave_existing)
    show "mirrored st" using assms by (simp add: invariant_def)
    show "\<And>p. p \<in> set (adapter st) \<Longrightarrow> fst p \<noteq> s \<Longrightarrow> p \<in> set (adapter (fst (leave_existing s st)))"
      by (rule adapter_leave_existing)
    show "\<And>x. x \<noteq> s \<Longrightarrow> map_of (userSocketMap (fst (leave_existing s st))) x = map_of (userSocketMap st) x"
      by (simp only: registry_leave_existing)
  qed
qed

lemma join_request_invalid:
  "\<not> truthy (d_roomId d) \<or> \<not> truthy (d_username d) \<Longrightarrow>
   join_request s d now st = (st, Some (AckError ''Room ID and username are required''), [])"
  unfolding join_request_def by (simp only: if_True)

lemma truthy_Some: "truthy v \<longleftrightarrow> (\<exists>x. v = Some x \<and> x \<noteq> [])"
  by (cases v) (simp_all add: truthy_def)

lemma join_request_conflict:
  assumes "d_roomId d = Some r" "d_username d = Some n" "r \<noteq> []" "n \<noteq> []"
    and "find (\<lambda>u. username u = n \<and> uid u \<noteq> s) (getUsersInRoom r (rooms st)) = Some e"
  shows "join_request s d now st =
           (st, Some (AckError (taken_message n)),
            [\<lparr>recipients = socket_emit s (adapter st), event = ''username_exists'',
              body = ErrorP (taken_message n)\<rparr>])"
  using assms by (simp add: join_request_def truthy_def)

lemma join_request_commit:
  assumes "d_roomId d = Some r" "d_username d = Some n" "r \<noteq> []" "n \<noteq> []"
    and "find (\<lambda>u. username u = n \<and> uid u \<noteq> s) (getUsersInRoom r (rooms st)) = None"
  shows "join_request s d now st =
           (fst (commit_join s r n now (fst (leave_existing s st))),
            fst (snd (commit_join s r n now (fst (leave_existing s st)))),
            snd (leave_existing s st) @ snd (snd (commit_join s r n now (fst (leave_existing s st)))))"
  using assms by (simp add: join_request_def truthy_def split: prod.splits)

lemma invariant_join_request:
  assumes inv: "invariant st"
  shows "invariant (fst (join_request s d now st))"
proof (cases "truthy (d_roomId d) \<and> truthy (d_username d)")
  case False
  then show ?thesis using inv by (simp add: join_request_invalid)
next
  case True
  then obtain r n where rn: "d_roomId d = Some r" "d_username d = Some n" "r \<noteq> []" "n \<noteq> []"
    by (auto simp: truthy_Some)
  show ?thesis
  proof (cases "find (\<lambda>u. username u = n \<and> uid u \<noteq> s) (getUsersInRoom r (rooms st))")
    case (Some e)
    show ?thesis using inv by (simp add: join_request_conflict[OF rn Some])
  next
    case f: None
  let ?st1 = "fst (leave_existing s st)"
  have eq: "fst (join_request s d now st) = fst (commit_join s r n now ?st1)"
    by (simp add: join_request_commit[OF rn f])
  have ok: "dir_ok (rooms st)" using inv by (simp add: invariant_def)
  have r1: "rooms ?st1 = without s (rooms st)" using ok by (rule rooms_leave_existing)
  have inv1: "invariant ?st1" using inv by (rule invariant_leave_existing)
  then have ok1: "dir_ok (rooms ?st1)" and mir1: "mirrored ?st1" by (simp_all add: invariant_def)
  have fresh: "\<not> has s (snd p)" if h: "p \<in> set (rooms ?st1)" for p
    using ok h unfolding r1 by (rule not_in_without)
  have free: "username (snd q) \<noteq> n" if h: "q \<in> set (room_of r (rooms ?st1))" for q
    using ok f h unfolding r1 by (rule find_None_free)
  let ?st2 = "fst (commit_join s r n now ?st1)"
  have "dir_ok (rooms ?st2)"
    unfolding rooms_commit_join using ok1 fresh rn(3,4) free by (rule dir_ok_add)
  moreover have "mirrored ?st2"
  proof (rule mirrored_add[of ?st1 _ r s "joined_user s r n now"])
    show "distinct (map fst (rooms ?st1))" using ok1 by (simp add: dir_ok_def)
    show "mirrored ?st1" by (rule mir1)
    show "rooms ?st2 = AList.update r (AList.update s (joined_user s r n now) (room_of r (rooms ?st1))) (rooms ?st1)"
      by (rule rooms_commit_join)
    show "distinct (map fst (room_of r (rooms ?st1)))"
      using room_of_ok[OF ok1, of r] by (cases "room_of r (rooms ?st1) = []") (simp_all add: room_ok_def)
    show "set (adapter ?st2) = insert (s, r) (set (adapter ?st1))"
      by (simp add: adapter_commit_join set_socket_join)
    show "userSocketMap ?st2 = AList.update s (joined_user s r n now) (userSocketMap ?st1)"
      by (rule registry_commit_join)
    show "\<And>p. p \<in> set (rooms ?st1) \<Longrightarrow> \<not> has s (snd p)" by (rule fresh)
  qed
  ultimately show ?thesis unfolding eq invariant_def by simp
  qed
qed

lemma on_event_join: "on_event s ''join-request'' d now st = join_request s d now st"
  by (simp add: on_event_def)

lemma on_event_other: "name \<noteq> ''join-request'' \<Longrightarrow> fst (on_event s name d now st) = st"
  by (simp add: on_event_def)

lemma invariant_on_event: "invariant st \<Longrightarrow> invariant (fst (on_event s name d now st))"
  by (cases "name = ''join-request''") (simp_all add: on_event_join on_event_other invariant_join_request)

lemma set_join_all: "set (join_all s rs ad) = set ad \<union> {s} \<times> set rs"
  unfolding join_all_def by (induction rs arbitrary: ad) (auto simp: set_socket_join)

lemma invariant_hangup:
  assumes inv: "invariant st"
    and rs: "rooms st0 = rooms st" and reg: "userSocketMap st0 = userSocketMap st"
    and ad: "adapter st0 = leave_all s (adapter st)"
  shows "invariant (fst (disconnect s st0))"
proof -
  have ok: "dir_ok (rooms st)" and mir: "mirrored st" using inv by (simp_all add: invariant_def)
  have ok0: "dir_ok (rooms st0)" using ok rs by simp
  have "dir_ok (rooms (fst (disconnect s st0)))"
    using ok rs by (simp add: rooms_disconnect[OF ok0] dir_ok_without)
  moreover have "mirrored (fst (disconnect s st0))"
  proof (rule mirrored_shrink[of st _ s])
    show "dir_ok (rooms st)" by (rule ok)
    show "mirrored st" by (rule mir)
    show "rooms (fst (disconnect s st0)) = without s (rooms st)"
      using rooms_disconnect[OF ok0] rs by simp
    show "\<And>p. p \<in> set (adapter st) \<Longrightarrow> fst p \<noteq> s \<Longrightarrow> p \<in> set (adapter (fst (disconnect s st0)))"
      by (simp add: adapter_disconnect ad leave_all_def)
    show "\<And>x. x \<noteq> s \<Longrightarrow> map_of (userSocketMap (fst (disconnect s st0))) x = map_of (userSocketMap st) x"
      using registry_disconnect[of _ s st0] reg by simp
  qed
  ultimately show ?thesis by (simp add: invariant_def)
qed

lemma invariant_step:
  assumes inv: "invariant st"
  shows "invariant (fst (step st a))"
proof (cases a)
  case (Connect s)
  have "mirrored (st\<lparr>adapter := socket_join s s (adapter st), sockets := sockets st @ [s],
                       seen := seen st @ [s]\<rparr>)"
    using inv unfolding invariant_def mirrored_def by (simp add: set_socket_join)
  then have "invariant (st\<lparr>adapter := socket_join s s (adapter st), sockets := sockets st @ [s],
                             seen := seen st @ [s]\<rparr>)"
    using inv by (simp add: invariant_def)
  then show ?thesis using inv Connect by simp
next
  case (Emit s name d now)
  then show ?thesis using inv by (simp add: invariant_on_event)
next
  case (Disconnect s)
  let ?st0 = "st\<lparr>adapter := leave_all s (adapter st), sockets := removeAll s (sockets st)\<rparr>"
  have "invariant (fst (disconnect s ?st0))" using inv by (rule invariant_hangup) simp_all
  then show ?thesis using inv Disconnect by (cases "disconnect s ?st0") simp
next
  case (Drop s)
  let ?st0 = "st\<lparr>adapter := leave_all s (adapter st), sockets := removeAll s (sockets st),
                 sessions := AList.update s (rooms_of_socket s (adapter st)) (sessions st)\<rparr>"
  have "invariant (fst (disconnect s ?st0))" using inv by (rule invariant_hangup) simp_all
  then show ?thesis using inv Drop by (cases "disconnect s ?st0") simp
next
  case (Recover s)
  have "mirrored (st\<lparr>adapter := socket_join s s (join_all s rs (adapter st)),
                       sockets := sockets st @ [s]\<rparr>)" for rs
    using inv unfolding invariant_def mirrored_def by (simp add: set_socket_join set_join_all)
  then have "invariant (st\<lparr>adapter := socket_join s s (join_all s rs (adapter st)),
                             sockets := sockets st @ [s]\<rparr>)" for rs
    using inv by (simp add: invariant_def)
  then show ?thesis using inv Recover by (simp split: option.splits)
qed

lemma reachable_invariant: "reachable st \<Longrightarrow> invariant st"
proof (induction rule: reachable.induct)
  case reachable_init
  show ?case by (simp add: invariant_def dir_ok_def mirrored_def init_server_def)
next
  case (reachable_step st a)
  then show ?case by (simp add: invariant_step)
qed

lemma two_users_eq:
  "two_users =
     \<lparr>rooms = [(''r1'', [(''A'', \<lparr>uid = ''A'', username = ''alice'', joinedAt = 1, roomId = ''r1''\<rparr>),
                          (''B'', \<lparr>uid = ''B'', username = ''bob'', joinedAt = 2, roomId = ''r1''\<rparr>)])],
      userSocketMap = [(''A'', \<lparr>uid = ''A'', username = ''alice'', joinedAt = 1, roomId = ''r1''\<rparr>),
                       (''B'', \<lparr>uid = ''B'', username = ''bob'', joinedAt = 2, roomId = ''r1''\<rparr>)],
      adapter = [(''A'', ''A''), (''B'', ''B''), (''A'', ''r1''), (''B'', ''r1'')],
      sockets = [''A'', ''B''], seen = [''A'', ''B''], sessions = []\<rparr>"
  by (simp add: two_users_def run_def init_server_def join_data_def on_event_def join_request_def
      truthy_def getUsersInRoom_def leave_existing_def commit_join_def socket_join_def has_def
      socket_to_def socket_emit_def io_to_def Let_def)

lemma reachable_run: "reachable st \<Longrightarrow> reachable (run st as)"
  unfolding run_def by (induction as arbitrary: st) (simp_all add: reachable_step)

lemma reachable_two_users: "reachable two_users"
  unfolding two_users_def by (rule reachable_run) (rule reachable_init)

section \<open>Rejected joins\<close>

text \<open>
  A request for a room that holds the username under another socket id: the callback
  gets the error, one event is sent with \<open>socket.emit\<close>, and the state is
  unchanged.
\<close>

lemma join_request_conflict_member:
  assumes "d_roomId d = Some r" "d_username d = Some n" "r \<noteq> []" "n \<noteq> []"
    and "u \<in> set (getUsersInRoom r (rooms st))" "username u = n" "uid u \<noteq> s"
  shows "join_request s d now st =
           (st, Some (AckError (taken_message n)),
            [\<lparr>recipients = socket_emit s (adapter st), event = ''username_exists'',
              body = ErrorP (taken_message n)\<rparr>])"
proof -
  have "find (\<lambda>u. username u = n \<and> uid u \<noteq> s) (getUsersInRoom r (rooms st)) \<noteq> None"
    using assms(5,6,7) by (auto simp: find_None_iff)
  then obtain e where "find (\<lambda>u. username u = n \<and> uid u \<noteq> s) (getUsersInRoom r (rooms st)) = Some e"
    by auto
  then show ?thesis using assms(1-4) by (rule join_request_conflict[rotated -1])
qed

text \<open>
  C1. With \<open>alice\<close> on socket \<open>A\<close> and \<open>bob\<close> on socket \<open>B\<close> in room \<open>r1\<close>,
  socket \<open>A\<close> asks to join \<open>r1\<close> as \<open>bob\<close>. The callback receives the error, the
  state is unchanged and one event goes to \<open>A\<close> alone; its name is
  \<open>username_exists\<close>, which is not the \<open>username-exists\<close> the client listens
  for (\<open>SocketEvent.USERNAME_EXISTS\<close>).
\<close>

theorem join_request_conflict_event_name:
  "join_request ''A'' (join_data ''r1'' ''bob'') 3 two_users =
     (two_users, Some (AckError (taken_message ''bob'')),
      [\<lparr>recipients = [''A''], event = ''username_exists'', body = ErrorP (taken_message ''bob'')\<rparr>])
   \<and> ''username_exists'' \<noteq> ''username-exists''"
  by (simp add: two_users_eq join_request_def join_data_def truthy_def getUsersInRoom_def
      socket_emit_def io_to_def)

theorem join_request_conflict_event_name_witness:
  "map event (snd (snd (join_request ''A'' (join_data ''r1'' ''bob'') 3 two_users))) = [''username_exists'']
   \<and> fst (join_request ''A'' (join_data ''r1'' ''bob'') 3 two_users) = two_users"
  using join_request_conflict_event_name by simp

section \<open>Members, snapshots and recipients\<close>

lemma has_users: "dir_ok rs \<Longrightarrow> has r rs \<longleftrightarrow> getUsersInRoom r rs \<noteq> []"
proof (cases "map_of rs r")
  case None
  then show ?thesis by (simp add: has_def getUsersInRoom_def)
next
  case (Some m)
  assume "dir_ok rs"
  moreover have "(r, m) \<in> set rs" using Some by (rule map_of_SomeD)
  ultimately have "room_ok r m" by (fastforce simp: dir_ok_def)
  then show ?thesis using Some by (simp add: has_def getUsersInRoom_def room_ok_def)
qed

lemma users_distinct:
  assumes "dir_ok rs"
  shows "distinct (map username (getUsersInRoom r rs))"
proof (cases "map_of rs r")
  case None
  then show ?thesis by (simp add: getUsersInRoom_def)
next
  case (Some m)
  have "(r, m) \<in> set rs" using Some by (rule map_of_SomeD)
  then have "room_ok r m" using assms by (fastforce simp: dir_ok_def)
  then have "distinct (map (\<lambda>p. username (snd p)) m)" by (simp add: room_ok_def)
  then show ?thesis using Some by (simp add: getUsersInRoom_def comp_def)
qed

lemma users_without:
  assumes "dir_ok rs"
  shows "getUsersInRoom x (without s rs) = filter (\<lambda>u. uid u \<noteq> s) (getUsersInRoom x rs)"
proof (cases "map_of rs x")
  case None
  then show ?thesis using assms by (simp add: getUsersInRoom_def map_of_without)
next
  case (Some m)
  have "(x, m) \<in> set rs" using Some by (rule map_of_SomeD)
  then have "room_ok x m" using assms by (fastforce simp: dir_ok_def)
  then have key: "\<forall>p\<in>set m. uid (snd p) = fst p" by (simp add: room_ok_def)
  have "map snd (AList.delete s m) = filter (\<lambda>u. uid u \<noteq> s) (map snd m)"
    using key by (induction m) (auto simp: AList.delete_eq)
  then show ?thesis using Some assms by (auto simp: getUsersInRoom_def map_of_without)
qed

lemma member_joined:
  assumes "invariant st" "u \<in> set (getUsersInRoom r (rooms st))"
  shows "(uid u, r) \<in> set (adapter st)"
proof -
  obtain m where m: "map_of (rooms st) r = Some m" "u \<in> snd ` set m"
    using assms(2) by (cases "map_of (rooms st) r") (simp_all add: getUsersInRoom_def)
  then obtain q where q: "q \<in> set m" "u = snd q" by auto
  have rm: "(r, m) \<in> set (rooms st)" using m(1) by (rule map_of_SomeD)
  then have "room_ok r m" using assms(1) by (fastforce simp: invariant_def dir_ok_def)
  then have "uid u = fst q" using q by (simp add: room_ok_def)
  moreover have "(fst q, r) \<in> set (adapter st)"
    using assms(1) rm q(1) unfolding invariant_def mirrored_def by fastforce
  ultimately show ?thesis by simp
qed

lemma member_room_name:
  assumes "dir_ok rs" "u \<in> set (getUsersInRoom r rs)"
  shows "r \<noteq> []"
proof -
  have "has r rs" using assms by (auto simp: has_users)
  then obtain m where "(r, m) \<in> set rs" by (auto simp: has_def dest: map_of_SomeD)
  then show ?thesis using assms(1) by (fastforce simp: dir_ok_def room_ok_def)
qed

lemma in_io_to: "x \<in> set (io_to (Some r) ad) \<longleftrightarrow> (x, r) \<in> set ad"
  by (force simp: io_to_def)

lemma in_socket_to:
  "x \<in> set (socket_to s (Some r) ad) \<longleftrightarrow> (x, r) \<in> set ad \<and> (x, s) \<notin> set ad"
  by (auto simp: socket_to_def in_io_to)

lemma own_room_private_iff: "own_room_private s ad \<longleftrightarrow> (\<forall>x. (x, s) \<in> set ad \<longleftrightarrow> x = s)"
  unfolding own_room_private_def set_eq_iff by (simp add: in_io_to)

lemma in_socket_to_private:
  "own_room_private s ad \<Longrightarrow> x \<in> set (socket_to s (Some r) ad) \<longleftrightarrow> (x, r) \<in> set ad \<and> x \<noteq> s"
  by (simp add: in_socket_to own_room_private_iff)

lemma socket_emit_private: "own_room_private s ad \<Longrightarrow> set (socket_emit s ad) = {s}"
  by (simp add: socket_emit_def own_room_private_def)

section \<open>Properties of every reachable state\<close>

text \<open>
  C2. In every state of the strict server reachable from the empty one by connections,
  client messages and disconnections, the usernames of the members of any room are
  pairwise distinct.
\<close>

theorem usernames_pairwise_distinct:
  "reachable st \<Longrightarrow> distinct (map username (getUsersInRoom r (rooms st)))"
  by (simp add: reachable_invariant [unfolded invariant_def] users_distinct)

theorem usernames_pairwise_distinct_witness:
  "map username (getUsersInRoom ''r1'' (rooms two_users)) = [''alice'', ''bob''] \<and>
   distinct (map username (getUsersInRoom ''r1'' (rooms two_users)))"
  using usernames_pairwise_distinct [OF reachable_two_users, of "''r1''"]
  by (simp add: two_users_eq getUsersInRoom_def)

lemma has_without: "dir_ok rs \<Longrightarrow> has r (without s rs) \<Longrightarrow> has r rs"
  by (auto simp: has_def map_of_without split: option.splits)

lemma has_update: "has r (AList.update k v rs) \<longleftrightarrow> r = k \<or> has r rs"
  by (simp add: has_def update_conv')

lemma ack_commit_join:
  "fst (snd (commit_join s r n now st)) =
     Some (AckSuccess r (getUsersInRoom r (rooms (fst (commit_join s r n now st)))) s)"
  by (simp add: commit_join_def Let_def)

lemma step_rooms_cases:
  assumes ok: "dir_ok (rooms st)"
  shows "rooms (fst (step st a)) = rooms st
       \<or> (\<exists>s. rooms (fst (step st a)) = without s (rooms st))
       \<or> (\<exists>s d now r n. a = Emit s ''join-request'' d now \<and> d_roomId d = Some r \<and> d_username d = Some n
            \<and> rooms (fst (step st a)) =
                 AList.update r (AList.update s (joined_user s r n now) (room_of r (without s (rooms st))))
                   (without s (rooms st))
            \<and> fst (snd (step st a)) = Some (AckSuccess r (getUsersInRoom r (rooms (fst (step st a)))) s))"
proof (cases a)
  case (Connect s)
  then show ?thesis by simp
next
  case (Disconnect s)
  let ?st0 = "st\<lparr>adapter := leave_all s (adapter st), sockets := removeAll s (sockets st)\<rparr>"
  have "rooms (fst (disconnect s ?st0)) = without s (rooms st)"
    using rooms_disconnect[of ?st0 s] ok by simp
  then show ?thesis using Disconnect by (cases "disconnect s ?st0") auto
next
  case (Drop s)
  let ?st0 = "st\<lparr>adapter := leave_all s (adapter st), sockets := removeAll s (sockets st),
                 sessions := AList.update s (rooms_of_socket s (adapter st)) (sessions st)\<rparr>"
  have "rooms (fst (disconnect s ?st0)) = without s (rooms st)"
    using rooms_disconnect[of ?st0 s] ok by simp
  then show ?thesis using Drop by (cases "disconnect s ?st0") auto
next
  case (Recover s)
  then show ?thesis by (simp split: option.splits)
next
  case (Emit s name d now)
  show ?thesis
  proof (cases "s \<in> set (sockets st) \<and> name = ''join-request'' \<and> truthy (d_roomId d) \<and> truthy (d_username d)")
    case False
    have "fst (step st a) = st"
    proof (cases "s \<in> set (sockets st)")
      case False
      then show ?thesis using Emit by simp
    next
      case conn: True
      show ?thesis
      proof (cases "name = ''join-request''")
        case False
        then show ?thesis using Emit conn by (simp add: on_event_other)
      next
        case True
        then have "\<not> truthy (d_roomId d) \<or> \<not> truthy (d_username d)"
          using \<open>\<not> (s \<in> set (sockets st) \<and> name = ''join-request'' \<and> truthy (d_roomId d) \<and> truthy (d_username d))\<close> conn
          by blast
        then show ?thesis using Emit conn True by (simp add: on_event_join join_request_invalid)
      qed
    qed
    then show ?thesis by simp
  next
    case True
    then obtain r n where rn: "d_roomId d = Some r" "d_username d = Some n" "r \<noteq> []" "n \<noteq> []"
      by (auto simp: truthy_Some)
    have st: "step st a = join_request s d now st" using Emit True by (simp add: on_event_join)
    show ?thesis
    proof (cases "find (\<lambda>u. username u = n \<and> uid u \<noteq> s) (getUsersInRoom r (rooms st))")
      case (Some e)
      show ?thesis by (simp add: st join_request_conflict[OF rn Some])
    next
      case None
      have r1: "rooms (fst (leave_existing s st)) = without s (rooms st)"
        using ok by (rule rooms_leave_existing)
      have "rooms (fst (step st a)) =
              AList.update r (AList.update s (joined_user s r n now) (room_of r (without s (rooms st))))
                (without s (rooms st))"
        by (simp add: st join_request_commit[OF rn None] rooms_commit_join r1)
      moreover have "fst (snd (step st a)) = Some (AckSuccess r (getUsersInRoom r (rooms (fst (step st a)))) s)"
        by (simp add: st join_request_commit[OF rn None] ack_commit_join)
      ultimately show ?thesis using Emit rn True by blast
    qed
  qed
qed

text \<open>
  C8. In every reachable state of the strict server a room id has an entry in the directory exactly when the
  room has at least one member. An entry for a room id that had none appears only in a
  step that is a \<open>join-request\<close> for that room id answered with success, and a room
  whose last member a step removes has no entry after that step.
\<close>

theorem room_entry_iff_members:
  "reachable st \<Longrightarrow>
     (has r (rooms st) \<longleftrightarrow> 0 < length (getUsersInRoom r (rooms st))) \<and>
     (\<not> has r (rooms st) \<and> has r (rooms (fst (step st a))) \<longrightarrow>
        (\<exists>s d now. a = Emit s ''join-request'' d now \<and> d_roomId d = Some r \<and>
           fst (snd (step st a)) = Some (AckSuccess r (getUsersInRoom r (rooms (fst (step st a)))) s))) \<and>
     (getUsersInRoom r (rooms (fst (step st a))) = [] \<longrightarrow> \<not> has r (rooms (fst (step st a))))"
proof -
  assume re: "reachable st"
  then have ok: "dir_ok (rooms st)" using reachable_invariant by (simp add: invariant_def)
  have "reachable (fst (step st a))" using re by (rule reachable_step)
  then have ok': "dir_ok (rooms (fst (step st a)))" using reachable_invariant by (simp add: invariant_def)
  have 1: "has r (rooms st) \<longleftrightarrow> 0 < length (getUsersInRoom r (rooms st))"
    using ok by (simp add: has_users)
  have 3: "getUsersInRoom r (rooms (fst (step st a))) = [] \<longrightarrow> \<not> has r (rooms (fst (step st a)))"
    using ok' by (simp add: has_users)
  have 2: "\<exists>s d now. a = Emit s ''join-request'' d now \<and> d_roomId d = Some r \<and>
           fst (snd (step st a)) = Some (AckSuccess r (getUsersInRoom r (rooms (fst (step st a)))) s)"
    if h: "\<not> has r (rooms st)" "has r (rooms (fst (step st a)))"
  proof -
    consider "rooms (fst (step st a)) = rooms st"
      | s where "rooms (fst (step st a)) = without s (rooms st)"
      | s d now r' n where "a = Emit s ''join-request'' d now" "d_roomId d = Some r'"
          "rooms (fst (step st a)) =
                 AList.update r' (AList.update s (joined_user s r' n now) (room_of r' (without s (rooms st))))
                   (without s (rooms st))"
          "fst (snd (step st a)) = Some (AckSuccess r' (getUsersInRoom r' (rooms (fst (step st a)))) s)"
      using step_rooms_cases[OF ok, of a] by blast
    then show ?thesis
    proof cases
      case 1 then show ?thesis using h by simp
    next
      case 2 then show ?thesis using h ok has_without by metis
    next
      case 3
      have "r = r' \<or> has r (without s (rooms st))" using h(2) unfolding 3(3) by (simp add: has_update)
      then have "r = r'" using h(1) ok has_without by metis
      then show ?thesis using 3 by blast
    qed
  qed
  show ?thesis using 1 2 3 by blast
qed

lemma one_user_eq:
  "one_user =
     \<lparr>rooms = [(''r1'', [(''A'', \<lparr>uid = ''A'', username = ''alice'', joinedAt = 1, roomId = ''r1''\<rparr>)])],
      userSocketMap = [(''A'', \<lparr>uid = ''A'', username = ''alice'', joinedAt = 1, roomId = ''r1''\<rparr>)],
      adapter = [(''A'', ''A''), (''A'', ''r1'')],
      sockets = [''A''], seen = [''A''], sessions = []\<rparr>"
  by (simp add: one_user_def run_def init_server_def join_data_def on_event_def join_request_def
      truthy_def getUsersInRoom_def leave_existing_def commit_join_def socket_join_def has_def
      socket_to_def socket_emit_def io_to_def Let_def)

lemma reachable_one_user: "reachable one_user"
  unfolding one_user_def by (rule reachable_run) (rule reachable_init)

lemma step_disconnect_one_user: "fst (step one_user (Disconnect ''A'')) = init_server\<lparr>seen := [''A'']\<rparr>"
  by (simp add: one_user_eq init_server_def disconnect_def has_def leave_all_def Let_def)

lemma step_join_r2_one_user:
  "step one_user (Emit ''A'' ''join-request'' (join_data ''r2'' ''alice'') 2) =
     (\<lparr>rooms = [(''r2'', [(''A'', \<lparr>uid = ''A'', username = ''alice'', joinedAt = 2, roomId = ''r2''\<rparr>)])],
       userSocketMap = [(''A'', \<lparr>uid = ''A'', username = ''alice'', joinedAt = 2, roomId = ''r2''\<rparr>)],
       adapter = [(''A'', ''A''), (''A'', ''r2'')],
       sockets = [''A''], seen = [''A''], sessions = []\<rparr>,
      Some (AckSuccess ''r2'' [\<lparr>uid = ''A'', username = ''alice'', joinedAt = 2, roomId = ''r2''\<rparr>] ''A''),
      [\<lparr>recipients = [''A''], event = ''join-accepted'',
        body = JoinAccepted ''A'' ''alice'' ''r2'' [\<lparr>uid = ''A'', username = ''alice'', joinedAt = 2, roomId = ''r2''\<rparr>]\<rparr>,
       \<lparr>recipients = [], event = ''user-joined'', body = UserJoined ''A'' ''alice'' 2 ''r2''\<rparr>])"
  by (simp add: one_user_eq join_data_def on_event_def join_request_def
      truthy_def getUsersInRoom_def leave_existing_def commit_join_def socket_join_def socket_leave_def has_def
      socket_to_def socket_emit_def io_to_def Let_def)

theorem room_entry_iff_members_witness:
  "has ''r1'' (rooms one_user) \<and> length (getUsersInRoom ''r1'' (rooms one_user)) = 1 \<and>
   \<not> has ''r2'' (rooms one_user) \<and>
   has ''r2'' (rooms (fst (step one_user (Emit ''A'' ''join-request'' (join_data ''r2'' ''alice'') 2)))) \<and>
   getUsersInRoom ''r1'' (rooms (fst (step one_user (Emit ''A'' ''join-request'' (join_data ''r2'' ''alice'') 2)))) = [] \<and>
   \<not> has ''r1'' (rooms (fst (step one_user (Emit ''A'' ''join-request'' (join_data ''r2'' ''alice'') 2))))"
proof -
  let ?a = "Emit ''A'' ''join-request'' (join_data ''r2'' ''alice'') 2"
  have after: "rooms (fst (step one_user ?a)) =
      [(''r2'', [(''A'', \<lparr>uid = ''A'', username = ''alice'', joinedAt = 2, roomId = ''r2''\<rparr>)])]"
    by (simp del: step.simps add: step_join_r2_one_user)
  have before: "has ''r1'' (rooms one_user)" "length (getUsersInRoom ''r1'' (rooms one_user)) = 1"
    "\<not> has ''r2'' (rooms one_user)"
    by (simp_all add: one_user_eq has_def getUsersInRoom_def)
  have gone: "getUsersInRoom ''r1'' (rooms (fst (step one_user ?a))) = []"
    unfolding after by (simp add: getUsersInRoom_def)
  have new: "has ''r2'' (rooms (fst (step one_user ?a)))"
    unfolding after by (simp add: has_def)
  have "\<not> has ''r1'' (rooms (fst (step one_user ?a)))"
    using room_entry_iff_members [OF reachable_one_user, of "''r1''" ?a] gone by blast
  then show ?thesis using before gone new by blast
qed

section \<open>Leaving\<close>

lemma disconnect_absent:
  "getRoomForSocket s (rooms st) = None \<Longrightarrow> disconnect s st = (st, [])"
  by (simp add: disconnect_def)

lemma disconnect_twice:
  assumes "dir_ok (rooms st)"
  shows "disconnect s (fst (disconnect s st)) = (fst (disconnect s st), [])"
proof (rule disconnect_absent)
  have "\<forall>p\<in>set (without s (rooms st)). \<not> has s (snd p)"
    using assms not_in_without by blast
  then show "getRoomForSocket s (rooms (fst (disconnect s st))) = None"
    using assms by (simp add: rooms_disconnect getRoomForSocket_None)
qed

text \<open>The strict listener: no room, no effect; and a second run finds no room.\<close>

lemma disconnect_idempotent:
  "((\<forall>p\<in>set (rooms st). \<not> has s (snd p)) \<longrightarrow> disconnect s st = (st, [])) \<and>
   (reachable st \<longrightarrow> disconnect s (fst (disconnect s st)) = (fst (disconnect s st), [])) \<and>
   (reachable st \<and> s \<in> set (sockets st) \<longrightarrow>
      disconnect s (fst (step st (Disconnect s))) = (fst (step st (Disconnect s)), []))"
proof (intro conjI impI)
  assume "\<forall>p\<in>set (rooms st). \<not> has s (snd p)"
  then have "getRoomForSocket s (rooms st) = None" by (simp add: getRoomForSocket_None)
  then show "disconnect s st = (st, [])" by (rule disconnect_absent)
next
  assume "reachable st"
  then have "dir_ok (rooms st)" using reachable_invariant by (simp add: invariant_def)
  then show "disconnect s (fst (disconnect s st)) = (fst (disconnect s st), [])"
    by (rule disconnect_twice)
next
  assume re: "reachable st \<and> s \<in> set (sockets st)"
  then have ok: "dir_ok (rooms st)" using reachable_invariant by (simp add: invariant_def)
  let ?st0 = "st\<lparr>adapter := leave_all s (adapter st), sockets := removeAll s (sockets st)\<rparr>"
  have "dir_ok (rooms ?st0)" using ok by simp
  then have "disconnect s (fst (disconnect s ?st0)) = (fst (disconnect s ?st0), [])"
    by (rule disconnect_twice)
  moreover have "fst (step st (Disconnect s)) = fst (disconnect s ?st0)"
    using re by (cases "disconnect s ?st0") simp
  ultimately show "disconnect s (fst (step st (Disconnect s))) = (fst (step st (Disconnect s)), [])"
    by simp
qed

lemma disconnect_one_user:
  "disconnect ''A'' one_user =
     (\<lparr>rooms = [], userSocketMap = [], adapter = [(''A'', ''A''), (''A'', ''r1'')], sockets = [''A''],
       seen = [''A''], sessions = []\<rparr>, [])"
  by (simp add: one_user_eq disconnect_def has_def Let_def)

section \<open>Relaying code changes\<close>

lemma step_code_change:
  "s \<in> set (sockets st) \<Longrightarrow> step st (Emit s ''code-change'' d now) = (st, None, code_change s d now st)"
  by (simp add: on_event_def)

lemma code_change_room:
  "d_roomId d = Some r \<Longrightarrow> r \<noteq> [] \<Longrightarrow>
   code_change s d now st =
     [\<lparr>recipients = socket_to s (Some r) (adapter st), event = ''code-update'',
       body = CodeUpdate (d_code d) (d_cursorPos d) (d_filePath d) s now\<rparr>]"
  by (simp add: code_change_def truthy_def)

text \<open>
  The relay as the comment of the listener describes it ("Broadcast to all in room
  except sender"), for a sender that alone is joined to the room of its id.
\<close>

lemma code_change_not_to_sender:
  assumes p: "own_room_private s (adapter st)" and e: "e \<in> set (code_change s d now st)"
    and ev: "event e = ''code-update''"
  shows "s \<notin> set (recipients e)"
proof (cases "truthy (d_roomId d)")
  case False
  then show ?thesis using e ev by (simp add: code_change_def)
next
  case True
  then obtain r where r: "d_roomId d = Some r" "r \<noteq> []" by (auto simp: truthy_Some)
  show ?thesis using e p unfolding code_change_room[OF r] by (simp add: in_socket_to_private)
qed

lemma code_change_reaches_member:
  assumes inv: "invariant st" and p: "own_room_private s (adapter st)" and r: "d_roomId d = Some r"
    and u: "u \<in> set (getUsersInRoom r (rooms st))" and ne: "uid u \<noteq> s"
  shows "\<exists>e\<in>set (code_change s d now st). uid u \<in> set (recipients e) \<and> event e = ''code-update'' \<and>
           body e = CodeUpdate (d_code d) (d_cursorPos d) (d_filePath d) s now"
proof -
  have "r \<noteq> []" using inv u by (auto simp: invariant_def dest: member_room_name)
  then have cc: "code_change s d now st =
     [\<lparr>recipients = socket_to s (Some r) (adapter st), event = ''code-update'',
       body = CodeUpdate (d_code d) (d_cursorPos d) (d_filePath d) s now\<rparr>]"
    using r by (simp add: code_change_room)
  have "(uid u, r) \<in> set (adapter st)" using inv u by (rule member_joined)
  then have "uid u \<in> set (socket_to s (Some r) (adapter st))"
    using ne p by (simp add: in_socket_to_private)
  then show ?thesis unfolding cc by simp
qed

lemma code_change_relay_private:
  assumes re: "reachable st" and conn: "s \<in> set (sockets st)"
    and p: "own_room_private s (adapter st)"
  shows "fst (step st (Emit s ''code-change'' d now)) = st \<and>
     (\<forall>e\<in>set (snd (snd (step st (Emit s ''code-change'' d now)))).
         event e = ''code-update'' \<longrightarrow> s \<notin> set (recipients e)) \<and>
     (\<forall>r u. d_roomId d = Some r \<and> u \<in> set (getUsersInRoom r (rooms st)) \<and> uid u \<noteq> s \<longrightarrow>
        (\<exists>e\<in>set (snd (snd (step st (Emit s ''code-change'' d now)))).
            uid u \<in> set (recipients e) \<and> event e = ''code-update'' \<and>
            body e = CodeUpdate (d_code d) (d_cursorPos d) (d_filePath d) s now))"
proof -
  have inv: "invariant st" using re by (rule reachable_invariant)
  have st: "step st (Emit s ''code-change'' d now) = (st, None, code_change s d now st)"
    using conn by (rule step_code_change)
  show ?thesis
    unfolding st using code_change_not_to_sender[OF p] code_change_reaches_member[OF inv p]
    by (simp del: step.simps)
qed

lemma two_users_code_change:
  "step two_users (Emit ''A'' ''code-change'' (code_data ''r1'' ''x = 1'') 5) =
     (two_users, None,
      [\<lparr>recipients = [''B''], event = ''code-update'',
        body = CodeUpdate (Some ''x = 1'') (Some ''4'') (Some ''main.js'') ''A'' 5\<rparr>])"
  by (simp add: on_event_def code_change_def code_data_def truthy_def)
     (simp add: two_users_eq socket_to_def socket_emit_def io_to_def)

lemma two_users_private: "own_room_private ''A'' (adapter two_users)"
  by (simp add: two_users_eq own_room_private_def io_to_def)

lemma member_is_found:
  assumes ok: "dir_ok rs" and u: "u \<in> set (getUsersInRoom r rs)"
  shows "getRoomForSocket (uid u) rs = Some r"
proof -
  obtain m where m: "map_of rs r = Some m" "u \<in> snd ` set m"
    using u by (cases "map_of rs r") (simp_all add: getUsersInRoom_def)
  then obtain q where q: "q \<in> set m" "u = snd q" by auto
  have "(r, m) \<in> set rs" using m(1) by (rule map_of_SomeD)
  then have "room_ok r m" using ok by (fastforce simp: dir_ok_def)
  then have "uid u = fst q" using q by (simp add: room_ok_def)
  then have "has (uid u) m" using q(1) by (auto simp: has_iff)
  then show ?thesis using ok m(1) by (auto simp: getRoomForSocket_member)
qed

text \<open>
  Under the same condition the strict relay reaches every member of the room, whoever
  sends; and the emissions are a function of the transport rooms: the directory is not
  consulted.
\<close>

lemma code_change_any_sender:
  assumes re: "reachable st" and conn: "s \<in> set (sockets st)"
    and p: "own_room_private s (adapter st)" and r: "d_roomId d = Some r"
    and out: "getRoomForSocket s (rooms st) \<noteq> Some r"
    and u: "u \<in> set (getUsersInRoom r (rooms st))"
  shows "\<exists>e\<in>set (snd (snd (step st (Emit s ''code-change'' d now)))).
            uid u \<in> set (recipients e) \<and> event e = ''code-update'' \<and>
            body e = CodeUpdate (d_code d) (d_cursorPos d) (d_filePath d) s now"
proof -
  have inv: "invariant st" using re by (rule reachable_invariant)
  then have ok: "dir_ok (rooms st)" by (simp add: invariant_def)
  have st: "step st (Emit s ''code-change'' d now) = (st, None, code_change s d now st)"
    using conn by (rule step_code_change)
  have out_eq: "snd (snd (step st (Emit s ''code-change'' d now))) = code_change s d now st"
    by (simp only: st snd_conv)
  have "getRoomForSocket (uid u) (rooms st) = Some r" using ok u by (rule member_is_found)
  then have "uid u \<noteq> s" using out by auto
  then show ?thesis unfolding out_eq using code_change_reaches_member[OF inv p r u] by simp
qed

lemma code_change_adapter_only:
  "adapter st2 = adapter st \<Longrightarrow> code_change s d now st2 = code_change s d now st"
  by (simp add: code_change_def)

lemma bob_in_room_A_eq:
  "bob_in_room_A =
     \<lparr>rooms = [(''A'', [(''B'', \<lparr>uid = ''B'', username = ''bob'', joinedAt = 1, roomId = ''A''\<rparr>)])],
      userSocketMap = [(''B'', \<lparr>uid = ''B'', username = ''bob'', joinedAt = 1, roomId = ''A''\<rparr>)],
      adapter = [(''A'', ''A''), (''B'', ''B''), (''B'', ''A'')],
      sockets = [''A'', ''B''], seen = [''A'', ''B''], sessions = []\<rparr>"
  by (simp add: bob_in_room_A_def run_def init_server_def join_data_def on_event_def join_request_def
      truthy_def getUsersInRoom_def leave_existing_def commit_join_def socket_join_def has_def
      socket_to_def socket_emit_def io_to_def Let_def)

lemma bob_in_room_A_join:
  "step bob_in_room_A (Emit ''A'' ''join-request'' (join_data ''A'' ''alice'') 2) =
     (\<lparr>rooms = [(''A'', [(''B'', \<lparr>uid = ''B'', username = ''bob'', joinedAt = 1, roomId = ''A''\<rparr>),
                         (''A'', \<lparr>uid = ''A'', username = ''alice'', joinedAt = 2, roomId = ''A''\<rparr>)])],
       userSocketMap = [(''B'', \<lparr>uid = ''B'', username = ''bob'', joinedAt = 1, roomId = ''A''\<rparr>),
                        (''A'', \<lparr>uid = ''A'', username = ''alice'', joinedAt = 2, roomId = ''A''\<rparr>)],
       adapter = [(''A'', ''A''), (''B'', ''B''), (''B'', ''A'')],
       sockets = [''A'', ''B''], seen = [''A'', ''B''], sessions = []\<rparr>,
      Some (AckSuccess ''A''
             [\<lparr>uid = ''B'', username = ''bob'', joinedAt = 1, roomId = ''A''\<rparr>,
              \<lparr>uid = ''A'', username = ''alice'', joinedAt = 2, roomId = ''A''\<rparr>] ''A''),
      [\<lparr>recipients = [''A'', ''B''], event = ''join-accepted'',
        body = JoinAccepted ''A'' ''alice'' ''A''
             [\<lparr>uid = ''B'', username = ''bob'', joinedAt = 1, roomId = ''A''\<rparr>,
              \<lparr>uid = ''A'', username = ''alice'', joinedAt = 2, roomId = ''A''\<rparr>]\<rparr>,
       \<lparr>recipients = [], event = ''user-joined'', body = UserJoined ''A'' ''alice'' 2 ''A''\<rparr>])"
  by (simp add: bob_in_room_A_eq on_event_def join_request_def join_data_def truthy_def
        getUsersInRoom_def leave_existing_def commit_join_def socket_join_def socket_leave_def
        has_def socket_to_def socket_emit_def io_to_def Let_def)

lemma both_in_room_A_eq:
  "both_in_room_A =
     \<lparr>rooms = [(''A'', [(''B'', \<lparr>uid = ''B'', username = ''bob'', joinedAt = 1, roomId = ''A''\<rparr>),
                         (''A'', \<lparr>uid = ''A'', username = ''alice'', joinedAt = 2, roomId = ''A''\<rparr>)])],
      userSocketMap = [(''B'', \<lparr>uid = ''B'', username = ''bob'', joinedAt = 1, roomId = ''A''\<rparr>),
                       (''A'', \<lparr>uid = ''A'', username = ''alice'', joinedAt = 2, roomId = ''A''\<rparr>)],
      adapter = [(''A'', ''A''), (''B'', ''B''), (''B'', ''A'')],
      sockets = [''A'', ''B''], seen = [''A'', ''B''], sessions = []\<rparr>"
  unfolding both_in_room_A_def run_def by (simp del: step.simps add: bob_in_room_A_join)

lemma both_in_room_A_move:
  "step both_in_room_A (Emit ''A'' ''join-request'' (join_data ''r2'' ''alice'') 3) =
     (\<lparr>rooms = [(''A'', [(''B'', \<lparr>uid = ''B'', username = ''bob'', joinedAt = 1, roomId = ''A''\<rparr>)]),
                (''r2'', [(''A'', \<lparr>uid = ''A'', username = ''alice'', joinedAt = 3, roomId = ''r2''\<rparr>)])],
       userSocketMap = [(''B'', \<lparr>uid = ''B'', username = ''bob'', joinedAt = 1, roomId = ''A''\<rparr>),
                        (''A'', \<lparr>uid = ''A'', username = ''alice'', joinedAt = 3, roomId = ''r2''\<rparr>)],
       adapter = [(''B'', ''B''), (''B'', ''A''), (''A'', ''r2'')],
       sockets = [''A'', ''B''], seen = [''A'', ''B''], sessions = []\<rparr>,
      Some (AckSuccess ''r2'' [\<lparr>uid = ''A'', username = ''alice'', joinedAt = 3, roomId = ''r2''\<rparr>] ''A''),
      [\<lparr>recipients = [], event = ''user-left'', body = UserLeft ''A'' (Some ''alice'')\<rparr>,
       \<lparr>recipients = [''B''], event = ''join-accepted'',
        body = JoinAccepted ''A'' ''alice'' ''r2'' [\<lparr>uid = ''A'', username = ''alice'', joinedAt = 3, roomId = ''r2''\<rparr>]\<rparr>,
       \<lparr>recipients = [''A''], event = ''user-joined'', body = UserJoined ''A'' ''alice'' 3 ''r2''\<rparr>])"
  by (simp add: both_in_room_A_eq on_event_def join_request_def join_data_def truthy_def
        getUsersInRoom_def leave_existing_def commit_join_def socket_join_def socket_leave_def
        has_def socket_to_def socket_emit_def io_to_def Let_def)

lemma alice_moved_eq:
  "alice_moved =
     \<lparr>rooms = [(''A'', [(''B'', \<lparr>uid = ''B'', username = ''bob'', joinedAt = 1, roomId = ''A''\<rparr>)]),
               (''r2'', [(''A'', \<lparr>uid = ''A'', username = ''alice'', joinedAt = 3, roomId = ''r2''\<rparr>)])],
      userSocketMap = [(''B'', \<lparr>uid = ''B'', username = ''bob'', joinedAt = 1, roomId = ''A''\<rparr>),
                       (''A'', \<lparr>uid = ''A'', username = ''alice'', joinedAt = 3, roomId = ''r2''\<rparr>)],
      adapter = [(''B'', ''B''), (''B'', ''A''), (''A'', ''r2'')],
      sockets = [''A'', ''B''], seen = [''A'', ''B''], sessions = []\<rparr>"
  unfolding alice_moved_def run_def by (simp del: step.simps add: both_in_room_A_move)

lemma reachable_bob_in_room_A: "reachable bob_in_room_A"
  unfolding bob_in_room_A_def by (rule reachable_run) (rule reachable_init)

lemma reachable_both_in_room_A: "reachable both_in_room_A"
  unfolding both_in_room_A_def by (rule reachable_run) (rule reachable_bob_in_room_A)

lemma reachable_alice_moved: "reachable alice_moved"
  unfolding alice_moved_def by (rule reachable_run) (rule reachable_both_in_room_A)

lemma both_in_room_A_code_change:
  "step both_in_room_A (Emit ''A'' ''code-change'' (code_data ''A'' ''x = 1'') 5) =
     (both_in_room_A, None,
      [\<lparr>recipients = [], event = ''code-update'',
        body = CodeUpdate (Some ''x = 1'') (Some ''4'') (Some ''main.js'') ''A'' 5\<rparr>])"
  by (simp add: on_event_def code_change_def code_data_def truthy_def)
     (simp add: both_in_room_A_eq socket_to_def socket_emit_def io_to_def)

lemma alice_moved_code_change:
  "step alice_moved (Emit ''A'' ''code-change'' (code_data ''r2'' ''x = 1'') 6) =
     (alice_moved, None,
      [\<lparr>recipients = [''A''], event = ''code-update'',
        body = CodeUpdate (Some ''x = 1'') (Some ''4'') (Some ''main.js'') ''A'' 6\<rparr>])"
  by (simp add: on_event_def code_change_def code_data_def truthy_def)
     (simp add: alice_moved_eq socket_to_def socket_emit_def io_to_def)

text \<open>
  A recovered socket is joined to the transport room of the room it was in, and the
  directory does not list it: the relay reaches it all the same.
\<close>

lemma bob_recovered_eq:
  "bob_recovered =
     \<lparr>rooms = [(''r1'', [(''A'', \<lparr>uid = ''A'', username = ''alice'', joinedAt = 1, roomId = ''r1''\<rparr>)])],
      userSocketMap = [(''A'', \<lparr>uid = ''A'', username = ''alice'', joinedAt = 1, roomId = ''r1''\<rparr>)],
      adapter = [(''A'', ''A''), (''A'', ''r1''), (''B'', ''B''), (''B'', ''r1'')],
      sockets = [''A'', ''B''], seen = [''A'', ''B''], sessions = [(''B'', [''B'', ''r1''])]\<rparr>"
  by (simp add: bob_recovered_def run_def two_users_eq disconnect_def has_def leave_all_def
      rooms_of_socket_def join_all_def socket_join_def io_to_def Let_def)

lemma bob_recovered_code_change:
  "getRoomForSocket ''B'' (rooms bob_recovered) = None \<and>
   step bob_recovered (Emit ''A'' ''code-change'' (code_data ''r1'' ''x = 1'') 5) =
     (bob_recovered, None,
      [\<lparr>recipients = [''B''], event = ''code-update'',
        body = CodeUpdate (Some ''x = 1'') (Some ''4'') (Some ''main.js'') ''A'' 5\<rparr>])"
  by (simp add: on_event_def code_change_def code_data_def truthy_def)
     (simp add: bob_recovered_eq socket_to_def io_to_def has_def)

text \<open>
  C7. Every member of the room other than the sender is to receive the
  \<open>code-update\<close>, and the sender is not. The listener relays with
  \<open>socket.to(roomId)\<close>, which skips the sockets joined to the room named by the
  sender's id. Socket \<open>B\<close> and then socket \<open>A\<close> have joined the room whose id is
  \<open>A\<close>'s socket id, a reachable state: the \<open>code-change\<close> of \<open>A\<close> for that
  room is addressed to nobody, though \<open>B\<close> is a member of it. Then \<open>A\<close> has
  moved to room \<open>r2\<close>, which made it leave the room of its own id, again a reachable
  state: its \<open>code-change\<close> for \<open>r2\<close> is addressed to \<open>A\<close> itself.
\<close>

theorem code_change_relay_by_room_name:
  "reachable both_in_room_A \<and>
   ''A'' \<in> set (sockets both_in_room_A) \<and>
   map uid (getUsersInRoom ''A'' (rooms both_in_room_A)) = [''B'', ''A''] \<and>
   step both_in_room_A (Emit ''A'' ''code-change'' (code_data ''A'' ''x = 1'') 5) =
     (both_in_room_A, None,
      [\<lparr>recipients = [], event = ''code-update'',
        body = CodeUpdate (Some ''x = 1'') (Some ''4'') (Some ''main.js'') ''A'' 5\<rparr>]) \<and>
   reachable alice_moved \<and>
   ''A'' \<in> set (sockets alice_moved) \<and>
   map uid (getUsersInRoom ''r2'' (rooms alice_moved)) = [''A''] \<and>
   step alice_moved (Emit ''A'' ''code-change'' (code_data ''r2'' ''x = 1'') 6) =
     (alice_moved, None,
      [\<lparr>recipients = [''A''], event = ''code-update'',
        body = CodeUpdate (Some ''x = 1'') (Some ''4'') (Some ''main.js'') ''A'' 6\<rparr>])"
proof -
  have 1: "''A'' \<in> set (sockets both_in_room_A)"
    "map uid (getUsersInRoom ''A'' (rooms both_in_room_A)) = [''B'', ''A'']"
    by (simp_all add: both_in_room_A_eq getUsersInRoom_def)
  have 2: "''A'' \<in> set (sockets alice_moved)"
    "map uid (getUsersInRoom ''r2'' (rooms alice_moved)) = [''A'']"
    by (simp_all add: alice_moved_eq getUsersInRoom_def)
  show ?thesis
    using reachable_both_in_room_A reachable_alice_moved 1 2
      both_in_room_A_code_change alice_moved_code_change
    by (intro conjI)
qed

theorem code_change_relay_by_room_name_witness:
  "map recipients (snd (snd (step both_in_room_A (Emit ''A'' ''code-change'' (code_data ''A'' ''x = 1'') 5)))) = [[]] \<and>
   map recipients (snd (snd (step alice_moved (Emit ''A'' ''code-change'' (code_data ''r2'' ''x = 1'') 6)))) = [[''A'']]"
  using code_change_relay_by_room_name by (simp del: step.simps)

lemma with_guest_eq:
  "with_guest = two_users\<lparr>adapter := [(''A'', ''A''), (''B'', ''B''), (''A'', ''r1''), (''B'', ''r1''), (''C'', ''C'')],
                          sockets := [''A'', ''B'', ''C''], seen := [''A'', ''B'', ''C'']\<rparr>"
  by (simp add: with_guest_def) (simp add: two_users_eq socket_join_def)

lemma reachable_with_guest: "reachable with_guest"
  unfolding with_guest_def using reachable_two_users by (rule reachable_step)

section \<open>What a leave removes and whom it tells\<close>

lemma users_without_empty:
  assumes "dir_ok rs" "map_of rs x = Some m"
  shows "getUsersInRoom x (without s rs) = [] \<longleftrightarrow> AList.delete s m = []"
  using assms by (simp add: getUsersInRoom_def map_of_without)

lemma found_room:
  assumes "dir_ok rs" "getRoomForSocket s rs = Some x"
  obtains m usr where "map_of rs x = Some m" "map_of m s = Some usr" "x \<noteq> []"
proof -
  obtain m where m: "map_of rs x = Some m" "has s m"
    using assms by (auto simp: getRoomForSocket_member)
  then obtain usr where "map_of m s = Some usr" by (auto simp: has_def)
  moreover have "x \<noteq> []" using assms by (rule dir_ok_room_name)
  ultimately show ?thesis using m(1) that by blast
qed

lemma out_leave_existing:
  assumes ok: "dir_ok (rooms st)" and x: "getRoomForSocket s (rooms st) = Some x"
  shows "snd (leave_existing s st) =
           (if getUsersInRoom x (without s (rooms st)) = [] then []
            else [\<lparr>recipients = socket_to s (Some x) (socket_leave s x (adapter st)),
                   event = ''user-left'',
                   body = UserLeft s (map_option username (map_of (userSocketMap st) s))\<rparr>])"
proof -
  obtain m usr where m: "map_of (rooms st) x = Some m" "map_of m s = Some usr" "x \<noteq> []"
    using ok x by (rule found_room)
  show ?thesis
    using x m users_without_empty[OF ok m(1), of s]
    by (simp add: leave_existing_def Let_def)
qed

lemma out_leave_existing_none:
  "getRoomForSocket s (rooms st) = None \<Longrightarrow> leave_existing s st = (st, [])"
  by (simp add: leave_existing_def)

lemma adapter_leave_existing_found:
  assumes ok: "dir_ok (rooms st)" and x: "getRoomForSocket s (rooms st) = Some x"
  shows "adapter (fst (leave_existing s st)) = socket_leave s x (adapter st)"
proof -
  obtain m usr where m: "map_of (rooms st) x = Some m" "map_of m s = Some usr" "x \<noteq> []"
    using ok x by (rule found_room)
  show ?thesis using x m by (simp add: leave_existing_def Let_def)
qed

lemma out_disconnect:
  assumes ok: "dir_ok (rooms st)" and x: "getRoomForSocket s (rooms st) = Some x"
    and m: "map_of (rooms st) x = Some m" and usr: "map_of m s = Some usr"
  shows "snd (disconnect s st) =
           (if getUsersInRoom x (without s (rooms st)) = [] then []
            else [\<lparr>recipients = io_to (Some x) (adapter st), event = ''user-left'',
                   body = UserLeft s (Some (username usr))\<rparr>])"
proof -
  have "x \<noteq> []" using ok x by (rule dir_ok_room_name)
  then show ?thesis
    using x m usr users_without_empty[OF ok m, of s]
    by (simp add: disconnect_def Let_def)
qed

lemma registry_disconnect_found:
  assumes ok: "dir_ok (rooms st)" and x: "getRoomForSocket s (rooms st) = Some x"
  shows "map_of (userSocketMap (fst (disconnect s st))) s = None"
proof -
  obtain m usr where m: "map_of (rooms st) x = Some m" "map_of m s = Some usr" "x \<noteq> []"
    using ok x by (rule found_room)
  show ?thesis using x m by (simp add: disconnect_def Let_def delete_conv')
qed

lemma registry_of_member:
  assumes "invariant st" "map_of (rooms st) x = Some m" "map_of m s = Some usr"
  shows "map_of (userSocketMap st) s = Some usr"
proof -
  have "(x, m) \<in> set (rooms st)" "(s, usr) \<in> set m"
    using assms(2,3) by (auto dest: map_of_SomeD)
  then show ?thesis using assms(1) unfolding invariant_def mirrored_def by fastforce
qed

lemma room_of_Some: "map_of rs x = Some m \<Longrightarrow> room_of x rs = m"
  by (simp add: room_of_def)

lemma step_leave_room: "step st (Emit s ''leave-room'' d now) = (st, None, [])"
  by (simp add: on_event_def)

lemma run_leaveRoom:
  "truthy r \<Longrightarrow> run st (leaveRoom s r now) = fst (step st (Disconnect s))"
  by (simp del: step.simps add: run_def leaveRoom_def step_leave_room)

lemma step_disconnect_connected:
  "s \<in> set (sockets st) \<Longrightarrow>
   step st (Disconnect s) =
     (fst (disconnect s (st\<lparr>adapter := leave_all s (adapter st), sockets := removeAll s (sockets st)\<rparr>)),
      None,
      snd (disconnect s (st\<lparr>adapter := leave_all s (adapter st), sockets := removeAll s (sockets st)\<rparr>)))"
  by (simp split: prod.splits)

lemma disconnect_effect:
  assumes re: "reachable st" and conn: "s \<in> set (sockets st)"
    and x: "getRoomForSocket s (rooms st) = Some x"
  shows "(\<forall>p\<in>set (rooms (fst (step st (Disconnect s)))). \<not> has s (snd p)) \<and>
      map_of (userSocketMap (fst (step st (Disconnect s)))) s = None \<and>
      getUsersInRoom x (rooms (fst (step st (Disconnect s)))) =
        filter (\<lambda>u. uid u \<noteq> s) (getUsersInRoom x (rooms st)) \<and>
      (getUsersInRoom x (rooms (fst (step st (Disconnect s)))) = [] \<longrightarrow>
         \<not> has x (rooms (fst (step st (Disconnect s)))) \<and> snd (snd (step st (Disconnect s))) = []) \<and>
      (getUsersInRoom x (rooms (fst (step st (Disconnect s)))) \<noteq> [] \<longrightarrow>
         (\<exists>usr R. map_of (room_of x (rooms st)) s = Some usr \<and>
            snd (snd (step st (Disconnect s))) =
              [\<lparr>recipients = R, event = ''user-left'', body = UserLeft s (Some (username usr))\<rparr>] \<and>
            (\<forall>u\<in>set (getUsersInRoom x (rooms (fst (step st (Disconnect s))))). uid u \<in> set R)))"
proof -
  let ?st0 = "st\<lparr>adapter := leave_all s (adapter st), sockets := removeAll s (sockets st)\<rparr>"
  let ?st' = "fst (step st (Disconnect s))"
  have inv: "invariant st" using re by (rule reachable_invariant)
  then have ok: "dir_ok (rooms st)" by (simp add: invariant_def)
  have ok0: "dir_ok (rooms ?st0)" using ok by simp
  have x0: "getRoomForSocket s (rooms ?st0) = Some x" using x by simp
  have st': "?st' = fst (disconnect s ?st0)" and out: "snd (snd (step st (Disconnect s))) = snd (disconnect s ?st0)"
    by (simp_all only: step_disconnect_connected[OF conn] fst_conv snd_conv)
  have rs': "rooms ?st' = without s (rooms st)"
    unfolding st' using rooms_disconnect[OF ok0, of s] by simp
  have inv': "invariant ?st'" using inv by (rule invariant_step)
  then have ok': "dir_ok (rooms ?st')" by (simp add: invariant_def)
  obtain m usr where m: "map_of (rooms st) x = Some m" "map_of m s = Some usr" "x \<noteq> []"
    using ok x by (rule found_room)
  have 1: "\<forall>p\<in>set (rooms ?st'). \<not> has s (snd p)"
    unfolding rs' using ok not_in_without by blast
  have 2: "map_of (userSocketMap ?st') s = None"
    unfolding st' using ok0 x0 by (rule registry_disconnect_found)
  have 3: "getUsersInRoom x (rooms ?st') = filter (\<lambda>u. uid u \<noteq> s) (getUsersInRoom x (rooms st))"
    unfolding rs' using ok by (rule users_without)
  have o: "snd (disconnect s ?st0) =
           (if getUsersInRoom x (without s (rooms ?st0)) = [] then []
            else [\<lparr>recipients = io_to (Some x) (adapter ?st0), event = ''user-left'',
                   body = UserLeft s (Some (username usr))\<rparr>])"
  proof (rule out_disconnect[OF ok0 x0 _ m(2)])
    show "map_of (rooms ?st0) x = Some m" using m(1) by simp
  qed
  have 4: "\<not> has x (rooms ?st') \<and> snd (snd (step st (Disconnect s))) = []"
    if e: "getUsersInRoom x (rooms ?st') = []"
  proof -
    have "\<not> has x (rooms ?st')" using ok' e by (simp add: has_users)
    moreover have "snd (snd (step st (Disconnect s))) = []"
      unfolding out o using e rs' by simp
    ultimately show ?thesis by simp
  qed
  have 5: "\<exists>usr R. map_of (room_of x (rooms st)) s = Some usr \<and>
            snd (snd (step st (Disconnect s))) =
              [\<lparr>recipients = R, event = ''user-left'', body = UserLeft s (Some (username usr))\<rparr>] \<and>
            (\<forall>u\<in>set (getUsersInRoom x (rooms ?st')). uid u \<in> set R)"
    if ne: "getUsersInRoom x (rooms ?st') \<noteq> []"
  proof -
    let ?R = "io_to (Some x) (adapter ?st0)"
    have a: "map_of (room_of x (rooms st)) s = Some usr" using m by (simp add: room_of_Some)
    have b: "snd (snd (step st (Disconnect s))) =
              [\<lparr>recipients = ?R, event = ''user-left'', body = UserLeft s (Some (username usr))\<rparr>]"
      unfolding out o using ne rs' by simp
    have c: "uid u \<in> set ?R" if u: "u \<in> set (getUsersInRoom x (rooms ?st'))" for u
    proof -
      have "(uid u, x) \<in> set (adapter ?st')" using inv' u by (rule member_joined)
      then show ?thesis unfolding st' by (simp add: adapter_disconnect in_io_to)
    qed
    show ?thesis using a b c by blast
  qed
  show ?thesis using 1 2 3 4 5 by blast
qed

text \<open>
  C5. The server registers no listener for \<open>leave-room\<close>: the message changes no state
  and sends nothing, whoever sends it. The client's \<open>leaveRoom\<close> follows it with a
  disconnect, and the two together leave the server where the disconnect alone does.
  The disconnect of a connected member of room \<open>x\<close> removes it from every room of the
  directory and from the registry; \<open>x\<close> keeps its other members; if none is left
  \<open>x\<close> has no entry and nothing is sent, otherwise one \<open>user-left\<close> with the
  socket id and the member's username addresses every remaining member.
\<close>

theorem leave_room_ignored_disconnect_leaves:
  "step st (Emit s ''leave-room'' d now) = (st, None, []) \<and>
   (truthy r \<longrightarrow> run st (leaveRoom s r now) = fst (step st (Disconnect s))) \<and>
   (reachable st \<and> s \<in> set (sockets st) \<and> getRoomForSocket s (rooms st) = Some x \<longrightarrow>
      (\<forall>p\<in>set (rooms (fst (step st (Disconnect s)))). \<not> has s (snd p)) \<and>
      map_of (userSocketMap (fst (step st (Disconnect s)))) s = None \<and>
      getUsersInRoom x (rooms (fst (step st (Disconnect s)))) =
        filter (\<lambda>u. uid u \<noteq> s) (getUsersInRoom x (rooms st)) \<and>
      (getUsersInRoom x (rooms (fst (step st (Disconnect s)))) = [] \<longrightarrow>
         \<not> has x (rooms (fst (step st (Disconnect s)))) \<and> snd (snd (step st (Disconnect s))) = []) \<and>
      (getUsersInRoom x (rooms (fst (step st (Disconnect s)))) \<noteq> [] \<longrightarrow>
         (\<exists>usr R. map_of (room_of x (rooms st)) s = Some usr \<and>
            snd (snd (step st (Disconnect s))) =
              [\<lparr>recipients = R, event = ''user-left'', body = UserLeft s (Some (username usr))\<rparr>] \<and>
            (\<forall>u\<in>set (getUsersInRoom x (rooms (fst (step st (Disconnect s))))). uid u \<in> set R))))"
  using step_leave_room run_leaveRoom disconnect_effect by (intro conjI impI) blast+

lemma two_users_disconnect:
  "step two_users (Disconnect ''A'') =
     (\<lparr>rooms = [(''r1'', [(''B'', \<lparr>uid = ''B'', username = ''bob'', joinedAt = 2, roomId = ''r1''\<rparr>)])],
       userSocketMap = [(''B'', \<lparr>uid = ''B'', username = ''bob'', joinedAt = 2, roomId = ''r1''\<rparr>)],
       adapter = [(''B'', ''B''), (''B'', ''r1'')],
       sockets = [''B''], seen = [''A'', ''B''], sessions = []\<rparr>,
      None,
      [\<lparr>recipients = [''B''], event = ''user-left'', body = UserLeft ''A'' (Some ''alice'')\<rparr>])"
  by (simp add: two_users_eq disconnect_def has_def leave_all_def io_to_def Let_def)

theorem leave_room_keeps_membership:
  "getRoomForSocket ''A'' (rooms two_users) = Some ''r1'' \<and>
   getRoomForSocket ''A'' (rooms (fst (step two_users (Emit ''A'' ''leave-room'' (room_data ''r1'') 5)))) = Some ''r1'' \<and>
   snd (snd (step two_users (Emit ''A'' ''leave-room'' (room_data ''r1'') 5))) = [] \<and>
   getRoomForSocket ''A'' (rooms (fst (step two_users (Disconnect ''A'')))) = None \<and>
   snd (snd (step two_users (Disconnect ''A''))) \<noteq> []"
proof -
  have a: "getRoomForSocket ''A'' (rooms two_users) = Some ''r1''"
    by (simp add: two_users_eq has_def)
  have l: "step two_users (Emit ''A'' ''leave-room'' (room_data ''r1'') 5) = (two_users, None, [])"
    by (simp add: on_event_def)
  show ?thesis
    by (simp del: step.simps add: l a two_users_disconnect) (simp add: has_def)
qed

theorem leave_room_ignored_disconnect_leaves_witness:
  "step two_users (Emit ''A'' ''leave-room'' (room_data ''r1'') 5) = (two_users, None, []) \<and>
   run two_users (leaveRoom ''A'' (Some ''r1'') 5) = fst (step two_users (Disconnect ''A'')) \<and>
   map_of (userSocketMap (fst (step two_users (Disconnect ''A'')))) ''A'' = None \<and>
   map uid (getUsersInRoom ''r1'' (rooms (fst (step two_users (Disconnect ''A''))))) = [''B''] \<and>
   (\<exists>R. snd (snd (step two_users (Disconnect ''A''))) =
          [\<lparr>recipients = R, event = ''user-left'', body = UserLeft ''A'' (Some ''alice'')\<rparr>] \<and> ''B'' \<in> set R)"
proof -
  have t: "truthy (Some ''r1'')" by (simp add: truthy_def)
  have conn: "''A'' \<in> set (sockets two_users)" by (simp add: two_users_eq)
  have a: "getRoomForSocket ''A'' (rooms two_users) = Some ''r1''"
    by (simp add: two_users_eq has_def)
  note th = leave_room_ignored_disconnect_leaves
              [of two_users "''A''" "room_data ''r1''" 5 "Some ''r1''" "''r1''"]
  have 1: "step two_users (Emit ''A'' ''leave-room'' (room_data ''r1'') 5) = (two_users, None, [])"
    using th by blast
  have 2: "run two_users (leaveRoom ''A'' (Some ''r1'') 5) = fst (step two_users (Disconnect ''A''))"
    using th t by blast
  have 3: "map_of (userSocketMap (fst (step two_users (Disconnect ''A'')))) ''A'' = None"
    using th reachable_two_users conn a by blast
  have 4: "map uid (getUsersInRoom ''r1'' (rooms (fst (step two_users (Disconnect ''A''))))) = [''B'']"
    by (simp del: step.simps add: two_users_disconnect getUsersInRoom_def)
  have 5: "\<exists>R. snd (snd (step two_users (Disconnect ''A''))) =
          [\<lparr>recipients = R, event = ''user-left'', body = UserLeft ''A'' (Some ''alice'')\<rparr>] \<and> ''B'' \<in> set R"
    by (simp del: step.simps add: two_users_disconnect)
  show ?thesis using 1 2 3 4 5 by blast
qed

section \<open>Successful joins\<close>

lemma step_join_request:
  "s \<in> set (sockets st) \<Longrightarrow> step st (Emit s ''join-request'' d now) = join_request s d now st"
  by (simp add: on_event_join)

lemma out_commit_join:
  "snd (snd (commit_join s r n now st)) =
     [\<lparr>recipients = socket_emit s (socket_join s r (adapter st)), event = ''join-accepted'',
       body = JoinAccepted s n r (getUsersInRoom r (rooms (fst (commit_join s r n now st))))\<rparr>,
      \<lparr>recipients = socket_to s (Some r) (socket_join s r (adapter st)), event = ''user-joined'',
       body = UserJoined s n now r\<rparr>]"
  by (simp add: commit_join_def Let_def)

lemma join_request_success:
  assumes "join_request s d now st = (st', Some (AckSuccess r us y), out)"
  obtains n where "d_roomId d = Some r" "d_username d = Some n" "r \<noteq> []" "n \<noteq> []"
    "find (\<lambda>u. username u = n \<and> uid u \<noteq> s) (getUsersInRoom r (rooms st)) = None"
proof (cases "truthy (d_roomId d) \<and> truthy (d_username d)")
  case False
  then show ?thesis using assms by (simp add: join_request_invalid)
next
  case True
  then obtain r' n where rn: "d_roomId d = Some r'" "d_username d = Some n" "r' \<noteq> []" "n \<noteq> []"
    by (auto simp: truthy_Some)
  show ?thesis
  proof (cases "find (\<lambda>u. username u = n \<and> uid u \<noteq> s) (getUsersInRoom r' (rooms st))")
    case (Some e)
    show ?thesis using assms by (simp add: join_request_conflict[OF rn Some])
  next
    case None
    have "r' = r" using assms by (simp add: join_request_commit[OF rn None] ack_commit_join)
    then show ?thesis using rn None that by simp
  qed
qed

lemma users_after_join:
  assumes ok: "dir_ok rs"
  shows "getUsersInRoom r (AList.update r (AList.update s usr (room_of r (without s rs))) (without s rs)) =
           filter (\<lambda>u. uid u \<noteq> s) (getUsersInRoom r rs) @ [usr]"
proof -
  let ?rs1 = "without s rs"
  have ok1: "dir_ok ?rs1" using ok by (rule dir_ok_without)
  have fresh: "s \<notin> fst ` set (room_of r ?rs1)"
  proof (cases "room_of r ?rs1 = []")
    case True then show ?thesis by simp
  next
    case False
    then have "(r, room_of r ?rs1) \<in> set ?rs1" by (rule room_of_mem)
    then have "\<not> has s (room_of r ?rs1)" using not_in_without[OF ok] by fastforce
    then show ?thesis by (simp add: has_iff)
  qed
  have "map snd (room_of r ?rs1) = getUsersInRoom r ?rs1"
    by (simp add: room_of_def getUsersInRoom_def split: option.splits)
  then have m: "map snd (room_of r ?rs1) = filter (\<lambda>u. uid u \<noteq> s) (getUsersInRoom r rs)"
    using ok by (simp add: users_without)
  have "getUsersInRoom r (AList.update r (AList.update s usr (room_of r ?rs1)) ?rs1) =
          map snd (AList.update s usr (room_of r ?rs1))"
    by (simp add: getUsersInRoom_def update_conv')
  also have "\<dots> = map snd (room_of r ?rs1) @ [usr]"
    by (simp add: update_fresh[OF fresh])
  finally show ?thesis by (simp only: m)
qed

lemma users_after_join_other:
  assumes ok: "dir_ok rs" and ne: "x \<noteq> r"
  shows "getUsersInRoom x (AList.update r m (without s rs)) =
           filter (\<lambda>u. uid u \<noteq> s) (getUsersInRoom x rs)"
proof -
  have "getUsersInRoom x (AList.update r m (without s rs)) = getUsersInRoom x (without s rs)"
    using ne by (simp add: getUsersInRoom_def update_conv')
  then show ?thesis using ok by (simp add: users_without)
qed

text \<open>The success branch of \<open>join-request\<close>, spelled out for a reachable state.\<close>

lemma join_success_shape:
  assumes inv: "invariant st"
    and j: "join_request s d now st = (st', Some (AckSuccess r us y), out)"
  obtains n where "d_roomId d = Some r" "d_username d = Some n" "y = s"
    "rooms st' = AList.update r (AList.update s (joined_user s r n now) (room_of r (without s (rooms st))))
                   (without s (rooms st))"
    "us = getUsersInRoom r (rooms st')"
    "adapter st' = socket_join s r (adapter (fst (leave_existing s st)))"
    "out = snd (leave_existing s st) @
       [\<lparr>recipients = socket_emit s (adapter st'), event = ''join-accepted'', body = JoinAccepted s n r us\<rparr>,
        \<lparr>recipients = socket_to s (Some r) (adapter st'), event = ''user-joined'',
         body = UserJoined s n now r\<rparr>]"
proof -
  obtain n where rn: "d_roomId d = Some r" "d_username d = Some n" "r \<noteq> []" "n \<noteq> []"
    and f: "find (\<lambda>u. username u = n \<and> uid u \<noteq> s) (getUsersInRoom r (rooms st)) = None"
    using j by (rule join_request_success)
  let ?st1 = "fst (leave_existing s st)"
  let ?c = "commit_join s r n now ?st1"
  have ok: "dir_ok (rooms st)" using inv by (simp add: invariant_def)
  have eq: "(st', Some (AckSuccess r us y), out) = (fst ?c, fst (snd ?c), snd (leave_existing s st) @ snd (snd ?c))"
    using j join_request_commit[OF rn f, of now] by simp
  then have st': "st' = fst ?c" and a: "Some (AckSuccess r us y) = fst (snd ?c)"
    and o: "out = snd (leave_existing s st) @ snd (snd ?c)" by simp_all
  have us: "us = getUsersInRoom r (rooms st')" and y: "y = s"
    using a unfolding ack_commit_join st' by simp_all
  have rs: "rooms st' = AList.update r (AList.update s (joined_user s r n now) (room_of r (without s (rooms st))))
                   (without s (rooms st))"
    unfolding st' by (simp add: rooms_commit_join rooms_leave_existing[OF ok])
  have ad: "adapter st' = socket_join s r (adapter ?st1)"
    unfolding st' by (rule adapter_commit_join)
  have "out = snd (leave_existing s st) @
       [\<lparr>recipients = socket_emit s (adapter st'), event = ''join-accepted'', body = JoinAccepted s n r us\<rparr>,
        \<lparr>recipients = socket_to s (Some r) (adapter st'), event = ''user-joined'',
         body = UserJoined s n now r\<rparr>]"
    unfolding o out_commit_join us st' adapter_commit_join by simp
  then show ?thesis using that rn(1,2) y rs us ad by blast
qed

lemma leave_existing_events: "e \<in> set (snd (leave_existing s st)) \<Longrightarrow> event e = ''user-left''"
  by (auto simp: leave_existing_def Let_def split: option.splits if_splits)

text \<open>
  The notifications of a successful join as the comments of the listener describe them
  ("Send join-accepted event to the client", "Notify others in the room about the new
  user"), for a requester that after the join alone is joined to the room of its id:
  \<open>join-accepted\<close> reaches the requester and nobody else, \<open>user-joined\<close> every
  other member of the snapshot and not the requester.
\<close>

lemma join_success_private:
  assumes re: "reachable st" and conn: "s \<in> set (sockets st)"
    and stp: "step st (Emit s ''join-request'' d now) = (st', Some (AckSuccess r us y), out)"
    and p: "own_room_private s (adapter st')"
  shows "\<exists>n left A R.
        d_roomId d = Some r \<and> d_username d = Some n \<and> y = s \<and>
        us = getUsersInRoom r (rooms st') \<and>
        us = filter (\<lambda>u. uid u \<noteq> s) (getUsersInRoom r (rooms st)) @
               [\<lparr>uid = s, username = n, joinedAt = now, roomId = r\<rparr>] \<and>
        out = left @
               [\<lparr>recipients = A, event = ''join-accepted'', body = JoinAccepted s n r us\<rparr>,
                \<lparr>recipients = R, event = ''user-joined'', body = UserJoined s n now r\<rparr>] \<and>
        (\<forall>e\<in>set left. event e = ''user-left'') \<and>
        set A = {s} \<and> s \<notin> set R \<and>
        (\<forall>u\<in>set us. uid u \<noteq> s \<longrightarrow> uid u \<in> set R)"
proof -
  have inv: "invariant st" using re by (rule reachable_invariant)
  then have ok: "dir_ok (rooms st)" by (simp add: invariant_def)
  have j: "join_request s d now st = (st', Some (AckSuccess r us y), out)"
    using stp step_join_request[OF conn] by simp
  have "invariant (fst (join_request s d now st))" using inv by (rule invariant_join_request)
  then have inv': "invariant st'" using j by simp
  obtain n where n: "d_roomId d = Some r" "d_username d = Some n" "y = s"
    "rooms st' = AList.update r (AList.update s (joined_user s r n now) (room_of r (without s (rooms st))))
                   (without s (rooms st))"
    "us = getUsersInRoom r (rooms st')"
    "adapter st' = socket_join s r (adapter (fst (leave_existing s st)))"
    "out = snd (leave_existing s st) @
       [\<lparr>recipients = socket_emit s (adapter st'), event = ''join-accepted'', body = JoinAccepted s n r us\<rparr>,
        \<lparr>recipients = socket_to s (Some r) (adapter st'), event = ''user-joined'',
         body = UserJoined s n now r\<rparr>]"
    using inv j by (rule join_success_shape)
  let ?A = "socket_emit s (adapter st')"
  let ?R = "socket_to s (Some r) (adapter st')"
  have snap: "us = filter (\<lambda>u. uid u \<noteq> s) (getUsersInRoom r (rooms st)) @
               [\<lparr>uid = s, username = n, joinedAt = now, roomId = r\<rparr>]"
    unfolding n(5) n(4) using users_after_join[OF ok, of r s "joined_user s r n now"]
    by (simp add: joined_user_def)
  have left: "\<forall>e\<in>set (snd (leave_existing s st)). event e = ''user-left''"
    using leave_existing_events by blast
  have me: "set ?A = {s}" using p by (rule socket_emit_private)
  have notme: "s \<notin> set ?R" using p by (simp add: in_socket_to_private)
  have others: "\<forall>u\<in>set us. uid u \<noteq> s \<longrightarrow> uid u \<in> set ?R"
  proof (intro ballI impI)
    fix u assume u: "u \<in> set us" and ne: "uid u \<noteq> s"
    have "(uid u, r) \<in> set (adapter st')" using inv' u unfolding n(5) by (rule member_joined)
    then show "uid u \<in> set ?R" using ne p by (simp add: in_socket_to_private)
  qed
  show ?thesis
    apply (rule exI[where x = n], rule exI[where x = "snd (leave_existing s st)"],
           rule exI[where x = "?A"], rule exI[where x = "?R"])
    apply (intro conjI)
             apply (rule n(1))
            apply (rule n(2))
           apply (rule n(3))
          apply (rule n(5))
         apply (rule snap)
        apply (rule n(7))
       apply (rule left)
      apply (rule me)
     apply (rule notme)
    apply (rule others)
    done
qed

lemma with_guest_join:
  "step with_guest (Emit ''C'' ''join-request'' (join_data ''r1'' ''carol'') 6) =
     (\<lparr>rooms = [(''r1'', [(''A'', \<lparr>uid = ''A'', username = ''alice'', joinedAt = 1, roomId = ''r1''\<rparr>),
                          (''B'', \<lparr>uid = ''B'', username = ''bob'', joinedAt = 2, roomId = ''r1''\<rparr>),
                          (''C'', \<lparr>uid = ''C'', username = ''carol'', joinedAt = 6, roomId = ''r1''\<rparr>)])],
       userSocketMap = [(''A'', \<lparr>uid = ''A'', username = ''alice'', joinedAt = 1, roomId = ''r1''\<rparr>),
                        (''B'', \<lparr>uid = ''B'', username = ''bob'', joinedAt = 2, roomId = ''r1''\<rparr>),
                        (''C'', \<lparr>uid = ''C'', username = ''carol'', joinedAt = 6, roomId = ''r1''\<rparr>)],
       adapter = [(''A'', ''A''), (''B'', ''B''), (''A'', ''r1''), (''B'', ''r1''), (''C'', ''C''), (''C'', ''r1'')],
       sockets = [''A'', ''B'', ''C''], seen = [''A'', ''B'', ''C''], sessions = []\<rparr>,
      Some (AckSuccess ''r1''
             [\<lparr>uid = ''A'', username = ''alice'', joinedAt = 1, roomId = ''r1''\<rparr>,
              \<lparr>uid = ''B'', username = ''bob'', joinedAt = 2, roomId = ''r1''\<rparr>,
              \<lparr>uid = ''C'', username = ''carol'', joinedAt = 6, roomId = ''r1''\<rparr>] ''C''),
      [\<lparr>recipients = [''C''], event = ''join-accepted'',
        body = JoinAccepted ''C'' ''carol'' ''r1''
             [\<lparr>uid = ''A'', username = ''alice'', joinedAt = 1, roomId = ''r1''\<rparr>,
              \<lparr>uid = ''B'', username = ''bob'', joinedAt = 2, roomId = ''r1''\<rparr>,
              \<lparr>uid = ''C'', username = ''carol'', joinedAt = 6, roomId = ''r1''\<rparr>]\<rparr>,
       \<lparr>recipients = [''A'', ''B''], event = ''user-joined'', body = UserJoined ''C'' ''carol'' 6 ''r1''\<rparr>])"
  by (simp add: with_guest_eq on_event_def join_request_def join_data_def truthy_def)
     (simp add: two_users_eq getUsersInRoom_def leave_existing_def commit_join_def socket_join_def
        has_def socket_to_def socket_emit_def io_to_def Let_def)

text \<open>
  C6. The requester and only the requester is to receive the acknowledgment of a
  successful join with its profile and the snapshot, and every other member of the room,
  never the requester, the notification of the new user. The callback does reach the
  requester alone. \<open>join-accepted\<close>, which carries the profile and the snapshot, is
  sent with \<open>socket.emit\<close>: under \<open>connectionStateRecovery\<close> that is a broadcast
  to the room named by the requester's id. \<open>user-joined\<close> is sent with
  \<open>socket.to(roomId)\<close>, which skips the sockets joined to that room. Socket \<open>B\<close>
  is a member of the room whose id is \<open>A\<close>'s socket id, a reachable state, and
  \<open>A\<close> joins that room: \<open>join-accepted\<close> is addressed to \<open>A\<close> and to
  \<open>B\<close>, \<open>user-joined\<close> to nobody. In the state reached, \<open>A\<close> joins room
  \<open>r2\<close> and so leaves the room of its id: \<open>join-accepted\<close> is addressed to
  \<open>B\<close> and not to \<open>A\<close>, \<open>user-joined\<close> to \<open>A\<close>, the requester.
\<close>

theorem join_notifications_by_room_name:
  "reachable bob_in_room_A \<and>
   ''A'' \<in> set (sockets bob_in_room_A) \<and>
   map uid (getUsersInRoom ''A'' (rooms bob_in_room_A)) = [''B''] \<and>
   snd (step bob_in_room_A (Emit ''A'' ''join-request'' (join_data ''A'' ''alice'') 2)) =
     (Some (AckSuccess ''A''
             [\<lparr>uid = ''B'', username = ''bob'', joinedAt = 1, roomId = ''A''\<rparr>,
              \<lparr>uid = ''A'', username = ''alice'', joinedAt = 2, roomId = ''A''\<rparr>] ''A''),
      [\<lparr>recipients = [''A'', ''B''], event = ''join-accepted'',
        body = JoinAccepted ''A'' ''alice'' ''A''
             [\<lparr>uid = ''B'', username = ''bob'', joinedAt = 1, roomId = ''A''\<rparr>,
              \<lparr>uid = ''A'', username = ''alice'', joinedAt = 2, roomId = ''A''\<rparr>]\<rparr>,
       \<lparr>recipients = [], event = ''user-joined'', body = UserJoined ''A'' ''alice'' 2 ''A''\<rparr>]) \<and>
   fst (step bob_in_room_A (Emit ''A'' ''join-request'' (join_data ''A'' ''alice'') 2)) = both_in_room_A \<and>
   reachable both_in_room_A \<and>
   ''A'' \<in> set (sockets both_in_room_A) \<and>
   map (\<lambda>e. (event e, recipients e))
       (snd (snd (step both_in_room_A (Emit ''A'' ''join-request'' (join_data ''r2'' ''alice'') 3)))) =
     [(''user-left'', []), (''join-accepted'', [''B'']), (''user-joined'', [''A''])] \<and>
   fst (snd (step both_in_room_A (Emit ''A'' ''join-request'' (join_data ''r2'' ''alice'') 3))) =
     Some (AckSuccess ''r2'' [\<lparr>uid = ''A'', username = ''alice'', joinedAt = 3, roomId = ''r2''\<rparr>] ''A'')"
proof -
  have 1: "''A'' \<in> set (sockets bob_in_room_A)"
    "map uid (getUsersInRoom ''A'' (rooms bob_in_room_A)) = [''B'']"
    by (simp_all add: bob_in_room_A_eq getUsersInRoom_def)
  have 2: "snd (step bob_in_room_A (Emit ''A'' ''join-request'' (join_data ''A'' ''alice'') 2)) =
     (Some (AckSuccess ''A''
             [\<lparr>uid = ''B'', username = ''bob'', joinedAt = 1, roomId = ''A''\<rparr>,
              \<lparr>uid = ''A'', username = ''alice'', joinedAt = 2, roomId = ''A''\<rparr>] ''A''),
      [\<lparr>recipients = [''A'', ''B''], event = ''join-accepted'',
        body = JoinAccepted ''A'' ''alice'' ''A''
             [\<lparr>uid = ''B'', username = ''bob'', joinedAt = 1, roomId = ''A''\<rparr>,
              \<lparr>uid = ''A'', username = ''alice'', joinedAt = 2, roomId = ''A''\<rparr>]\<rparr>,
       \<lparr>recipients = [], event = ''user-joined'', body = UserJoined ''A'' ''alice'' 2 ''A''\<rparr>])"
    by (simp only: bob_in_room_A_join snd_conv)
  have 3: "fst (step bob_in_room_A (Emit ''A'' ''join-request'' (join_data ''A'' ''alice'') 2)) = both_in_room_A"
    by (simp only: bob_in_room_A_join fst_conv both_in_room_A_eq)
  have 4: "''A'' \<in> set (sockets both_in_room_A)" by (simp add: both_in_room_A_eq)
  have 5: "map (\<lambda>e. (event e, recipients e))
       (snd (snd (step both_in_room_A (Emit ''A'' ''join-request'' (join_data ''r2'' ''alice'') 3)))) =
     [(''user-left'', []), (''join-accepted'', [''B'']), (''user-joined'', [''A''])]"
    by (simp only: both_in_room_A_move snd_conv) simp
  have 6: "fst (snd (step both_in_room_A (Emit ''A'' ''join-request'' (join_data ''r2'' ''alice'') 3))) =
     Some (AckSuccess ''r2'' [\<lparr>uid = ''A'', username = ''alice'', joinedAt = 3, roomId = ''r2''\<rparr>] ''A'')"
    by (simp only: both_in_room_A_move snd_conv fst_conv)
  show ?thesis
    using reachable_bob_in_room_A reachable_both_in_room_A 1 2 3 4 5 6 by (intro conjI)
qed

theorem join_notifications_by_room_name_witness:
  "map (\<lambda>e. (event e, recipients e))
       (snd (snd (step bob_in_room_A (Emit ''A'' ''join-request'' (join_data ''A'' ''alice'') 2)))) =
     [(''join-accepted'', [''A'', ''B'']), (''user-joined'', [])] \<and>
   map (\<lambda>e. (event e, recipients e))
       (snd (snd (step both_in_room_A (Emit ''A'' ''join-request'' (join_data ''r2'' ''alice'') 3)))) =
     [(''user-left'', []), (''join-accepted'', [''B'']), (''user-joined'', [''A''])]"
  using join_notifications_by_room_name by (simp del: step.simps)

lemma in_socket_leave: "p \<in> set (socket_leave s x ad) \<longleftrightarrow> p \<in> set ad \<and> p \<noteq> (s, x)"
  by (auto simp: socket_leave_def)

lemma own_room_private_leave:
  "own_room_private s ad \<Longrightarrow> x \<noteq> s \<Longrightarrow> own_room_private s (socket_leave s x ad)"
  unfolding own_room_private_iff by (auto simp: in_socket_leave)

text \<open>
  The move between rooms as the listener's comment describes it ("Notify remaining
  users"), for a socket that alone is joined to the room of its id and whose current
  room is not named by that id.
\<close>

lemma join_moves_private:
  assumes re: "reachable st" and conn: "s \<in> set (sockets st)"
    and x: "getRoomForSocket s (rooms st) = Some x"
    and stp: "step st (Emit s ''join-request'' d now) = (st', Some (AckSuccess y us yid), out)"
    and ne: "y \<noteq> x"
    and p: "own_room_private s (adapter st)" and xs: "x \<noteq> s"
  shows "getUsersInRoom x (rooms st') = filter (\<lambda>u. uid u \<noteq> s) (getUsersInRoom x (rooms st)) \<and>
     (getUsersInRoom x (rooms st') = [] \<longrightarrow>
        \<not> has x (rooms st') \<and> map event out = [''join-accepted'', ''user-joined'']) \<and>
     (getUsersInRoom x (rooms st') \<noteq> [] \<longrightarrow>
        (\<exists>usr R joined.
           map_of (room_of x (rooms st)) s = Some usr \<and>
           out = \<lparr>recipients = R, event = ''user-left'', body = UserLeft s (Some (username usr))\<rparr> # joined \<and>
           map event joined = [''join-accepted'', ''user-joined''] \<and>
           s \<notin> set R \<and>
           (\<forall>u\<in>set (getUsersInRoom x (rooms st')). uid u \<in> set R))) \<and>
     getRoomForSocket s (rooms st') = Some y \<and>
     (\<forall>p\<in>set (rooms st'). has s (snd p) \<longrightarrow> fst p = y)"
proof -
  have inv: "invariant st" using re by (rule reachable_invariant)
  then have ok: "dir_ok (rooms st)" by (simp add: invariant_def)
  have j: "join_request s d now st = (st', Some (AckSuccess y us yid), out)"
    using stp step_join_request[OF conn] by simp
  have "invariant (fst (join_request s d now st))" using inv by (rule invariant_join_request)
  then have inv': "invariant st'" using j by simp
  then have ok': "dir_ok (rooms st')" by (simp add: invariant_def)
  obtain n where n: "d_roomId d = Some y" "d_username d = Some n" "yid = s"
    "rooms st' = AList.update y (AList.update s (joined_user s y n now) (room_of y (without s (rooms st))))
                   (without s (rooms st))"
    "us = getUsersInRoom y (rooms st')"
    "adapter st' = socket_join s y (adapter (fst (leave_existing s st)))"
    "out = snd (leave_existing s st) @
       [\<lparr>recipients = socket_emit s (adapter st'), event = ''join-accepted'', body = JoinAccepted s n y us\<rparr>,
        \<lparr>recipients = socket_to s (Some y) (adapter st'), event = ''user-joined'',
         body = UserJoined s n now y\<rparr>]"
    using inv j by (rule join_success_shape)
  obtain m usr where m: "map_of (rooms st) x = Some m" "map_of m s = Some usr" "x \<noteq> []"
    using ok x by (rule found_room)
  let ?R = "socket_to s (Some x) (socket_leave s x (adapter st))"
  let ?left = "\<lparr>recipients = ?R, event = ''user-left'', body = UserLeft s (Some (username usr))\<rparr>"
  let ?joined = "[\<lparr>recipients = socket_emit s (adapter st'), event = ''join-accepted'', body = JoinAccepted s n y us\<rparr>,
        \<lparr>recipients = socket_to s (Some y) (adapter st'), event = ''user-joined'',
         body = UserJoined s n now y\<rparr>]"
  have p1: "own_room_private s (socket_leave s x (adapter st))"
    using p xs by (rule own_room_private_leave)
  have xw: "getUsersInRoom x (rooms st') = getUsersInRoom x (without s (rooms st))"
    unfolding n(4) using ne by (simp add: getUsersInRoom_def update_conv')
  have 1: "getUsersInRoom x (rooms st') = filter (\<lambda>u. uid u \<noteq> s) (getUsersInRoom x (rooms st))"
    unfolding xw using ok by (rule users_without)
  have reg: "map_of (userSocketMap st) s = Some usr"
    using inv m(1,2) by (rule registry_of_member)
  have le: "snd (leave_existing s st) = (if getUsersInRoom x (rooms st') = [] then [] else [?left])"
    unfolding xw using out_leave_existing[OF ok x] reg by simp
  have 2: "\<not> has x (rooms st') \<and> map event out = [''join-accepted'', ''user-joined'']"
    if e: "getUsersInRoom x (rooms st') = []"
  proof -
    have "\<not> has x (rooms st')" using ok' e by (simp add: has_users)
    moreover have "out = ?joined" unfolding n(7) le using e by simp
    ultimately show ?thesis by simp
  qed
  have 3: "\<exists>usr R joined.
           map_of (room_of x (rooms st)) s = Some usr \<and>
           out = \<lparr>recipients = R, event = ''user-left'', body = UserLeft s (Some (username usr))\<rparr> # joined \<and>
           map event joined = [''join-accepted'', ''user-joined''] \<and>
           s \<notin> set R \<and>
           (\<forall>u\<in>set (getUsersInRoom x (rooms st')). uid u \<in> set R)"
    if e: "getUsersInRoom x (rooms st') \<noteq> []"
  proof -
    have a: "map_of (room_of x (rooms st)) s = Some usr" using m by (simp add: room_of_Some)
    have b: "out = ?left # ?joined" unfolding n(7) le using e by simp
    have c: "map event ?joined = [''join-accepted'', ''user-joined'']" by simp
    have d: "s \<notin> set ?R" using p1 by (simp add: in_socket_to_private)
    have f: "uid u \<in> set ?R" if u: "u \<in> set (getUsersInRoom x (rooms st'))" for u
    proof -
      have old: "u \<in> set (getUsersInRoom x (rooms st))" and us: "uid u \<noteq> s"
        using u unfolding 1 by simp_all
      have "(uid u, x) \<in> set (adapter st)" using inv old by (rule member_joined)
      then show ?thesis using us p1 by (simp add: in_socket_to_private in_socket_leave)
    qed
    show ?thesis
      apply (intro exI[where x = usr] exI[where x = "?R"] exI[where x = "?joined"] conjI ballI)
          apply (rule a)
         apply (rule b)
        apply (rule c)
       apply (rule d)
      apply (erule f)
      done
  qed
  have new: "joined_user s y n now \<in> set (getUsersInRoom y (rooms st'))"
    unfolding n(4) using users_after_join[OF ok, of y s "joined_user s y n now"] by simp
  have 4: "getRoomForSocket s (rooms st') = Some y"
    using member_is_found[OF ok' new] by (simp add: joined_user_def)
  have 5: "\<forall>p\<in>set (rooms st'). has s (snd p) \<longrightarrow> fst p = y"
  proof (intro ballI impI)
    fix p assume p: "p \<in> set (rooms st')" and h: "has s (snd p)"
    have "map_of (rooms st') (fst p) = Some (snd p)"
      using ok' p dir_ok_lookup[of "rooms st'" "fst p" "snd p"] by simp
    then have "getRoomForSocket s (rooms st') = Some (fst p)"
      using ok' h by (auto simp: getRoomForSocket_member)
    then show "fst p = y" using 4 by simp
  qed
  have i2: "getUsersInRoom x (rooms st') = [] \<longrightarrow>
        \<not> has x (rooms st') \<and> map event out = [''join-accepted'', ''user-joined'']"
    using 2 by (rule impI)
  have i3: "getUsersInRoom x (rooms st') \<noteq> [] \<longrightarrow>
        (\<exists>usr R joined.
           map_of (room_of x (rooms st)) s = Some usr \<and>
           out = \<lparr>recipients = R, event = ''user-left'', body = UserLeft s (Some (username usr))\<rparr> # joined \<and>
           map event joined = [''join-accepted'', ''user-joined''] \<and>
           s \<notin> set R \<and>
           (\<forall>u\<in>set (getUsersInRoom x (rooms st')). uid u \<in> set R))"
    using 3 by (rule impI)
  from 1 i2 i3 4 5 show ?thesis by (intro conjI)
qed

lemma two_users_move:
  "step two_users (Emit ''A'' ''join-request'' (join_data ''r2'' ''alice'') 7) =
     (\<lparr>rooms = [(''r1'', [(''B'', \<lparr>uid = ''B'', username = ''bob'', joinedAt = 2, roomId = ''r1''\<rparr>)]),
                (''r2'', [(''A'', \<lparr>uid = ''A'', username = ''alice'', joinedAt = 7, roomId = ''r2''\<rparr>)])],
       userSocketMap = [(''A'', \<lparr>uid = ''A'', username = ''alice'', joinedAt = 7, roomId = ''r2''\<rparr>),
                        (''B'', \<lparr>uid = ''B'', username = ''bob'', joinedAt = 2, roomId = ''r1''\<rparr>)],
       adapter = [(''A'', ''A''), (''B'', ''B''), (''B'', ''r1''), (''A'', ''r2'')],
       sockets = [''A'', ''B''], seen = [''A'', ''B''], sessions = []\<rparr>,
      Some (AckSuccess ''r2'' [\<lparr>uid = ''A'', username = ''alice'', joinedAt = 7, roomId = ''r2''\<rparr>] ''A''),
      [\<lparr>recipients = [''B''], event = ''user-left'', body = UserLeft ''A'' (Some ''alice'')\<rparr>,
       \<lparr>recipients = [''A''], event = ''join-accepted'',
        body = JoinAccepted ''A'' ''alice'' ''r2'' [\<lparr>uid = ''A'', username = ''alice'', joinedAt = 7, roomId = ''r2''\<rparr>]\<rparr>,
       \<lparr>recipients = [], event = ''user-joined'', body = UserJoined ''A'' ''alice'' 7 ''r2''\<rparr>])"
  by (simp add: two_users_eq on_event_def join_request_def join_data_def truthy_def
        getUsersInRoom_def leave_existing_def commit_join_def socket_join_def socket_leave_def
        has_def socket_to_def socket_emit_def io_to_def Let_def)

text \<open>
  C4. A member of room \<open>X\<close> that joins another room \<open>Y\<close> is to be removed from
  \<open>X\<close>, with a \<open>user-left\<close> to the members that remain in \<open>X\<close>, and to end as
  a member of \<open>Y\<close> only. The directory does that. The \<open>user-left\<close> is sent with
  \<open>socket.to(currentRoom)\<close> after \<open>socket.leave(currentRoom)\<close>, and
  \<open>socket.to\<close> skips the sockets joined to the room named by the sender's id. Sockets
  \<open>B\<close> and \<open>A\<close> are the members of the room whose id is \<open>A\<close>'s socket id, a
  reachable state, and \<open>A\<close> joins room \<open>r2\<close>: afterwards \<open>B\<close> is the member
  that remains and \<open>A\<close> is in \<open>r2\<close> only, but the \<open>user-left\<close> with \<open>A\<close>'s
  id and username is addressed to nobody.
\<close>

theorem join_move_user_left_by_room_name:
  "reachable both_in_room_A \<and>
   ''A'' \<in> set (sockets both_in_room_A) \<and>
   getRoomForSocket ''A'' (rooms both_in_room_A) = Some ''A'' \<and>
   map uid (getUsersInRoom ''A'' (rooms both_in_room_A)) = [''B'', ''A''] \<and>
   fst (step both_in_room_A (Emit ''A'' ''join-request'' (join_data ''r2'' ''alice'') 3)) = alice_moved \<and>
   fst (snd (step both_in_room_A (Emit ''A'' ''join-request'' (join_data ''r2'' ''alice'') 3))) =
     Some (AckSuccess ''r2'' [\<lparr>uid = ''A'', username = ''alice'', joinedAt = 3, roomId = ''r2''\<rparr>] ''A'') \<and>
   map uid (getUsersInRoom ''A'' (rooms alice_moved)) = [''B''] \<and>
   getRoomForSocket ''A'' (rooms alice_moved) = Some ''r2'' \<and>
   hd (snd (snd (step both_in_room_A (Emit ''A'' ''join-request'' (join_data ''r2'' ''alice'') 3)))) =
     \<lparr>recipients = [], event = ''user-left'', body = UserLeft ''A'' (Some ''alice'')\<rparr> \<and>
   map event (snd (snd (step both_in_room_A (Emit ''A'' ''join-request'' (join_data ''r2'' ''alice'') 3)))) =
     [''user-left'', ''join-accepted'', ''user-joined'']"
proof -
  let ?a = "Emit ''A'' ''join-request'' (join_data ''r2'' ''alice'') 3"
  have 1: "''A'' \<in> set (sockets both_in_room_A)"
    "getRoomForSocket ''A'' (rooms both_in_room_A) = Some ''A''"
    "map uid (getUsersInRoom ''A'' (rooms both_in_room_A)) = [''B'', ''A'']"
    by (simp_all add: both_in_room_A_eq getUsersInRoom_def has_def)
  have 2: "fst (step both_in_room_A ?a) = alice_moved"
    by (simp only: both_in_room_A_move fst_conv alice_moved_eq)
  have 3: "fst (snd (step both_in_room_A ?a)) =
     Some (AckSuccess ''r2'' [\<lparr>uid = ''A'', username = ''alice'', joinedAt = 3, roomId = ''r2''\<rparr>] ''A'')"
    by (simp only: both_in_room_A_move snd_conv fst_conv)
  have 4: "map uid (getUsersInRoom ''A'' (rooms alice_moved)) = [''B'']"
    "getRoomForSocket ''A'' (rooms alice_moved) = Some ''r2''"
    by (simp_all add: alice_moved_eq getUsersInRoom_def has_def)
  have 5: "hd (snd (snd (step both_in_room_A ?a))) =
     \<lparr>recipients = [], event = ''user-left'', body = UserLeft ''A'' (Some ''alice'')\<rparr>"
    by (simp only: both_in_room_A_move snd_conv list.sel)
  have 6: "map event (snd (snd (step both_in_room_A ?a))) =
     [''user-left'', ''join-accepted'', ''user-joined'']"
    by (simp only: both_in_room_A_move snd_conv) simp
  show ?thesis using reachable_both_in_room_A 1 2 3 4 5 6 by (intro conjI)
qed

theorem join_move_user_left_by_room_name_witness:
  "recipients (hd (snd (snd (step both_in_room_A (Emit ''A'' ''join-request'' (join_data ''r2'' ''alice'') 3))))) = [] \<and>
   map uid (getUsersInRoom ''A'' (rooms (fst (step both_in_room_A (Emit ''A'' ''join-request'' (join_data ''r2'' ''alice'') 3))))) = [''B'']"
  using join_move_user_left_by_room_name by (simp del: step.simps)

section \<open>The lenient server\<close>

lemma in_update: "x \<in> set (AList.update k v al) \<Longrightarrow> x = (k, v) \<or> x \<in> set al"
  by (induction al) (auto split: if_splits)

lemma lenient_join_rooms:
  assumes "d_roomId d = Some r" "r \<noteq> []"
  shows "l_rooms (fst (lenient_join_request s d now st)) =
           AList.update r
             (AList.update s \<lparr>l_id = s, l_username = js_or (d_username d) ''Anonymous'', l_joinedAt = now\<rparr>
                (case map_of (l_rooms st) r of None \<Rightarrow> [] | Some m \<Rightarrow> m))
             (l_rooms st)"
    and "l_adapter (fst (lenient_join_request s d now st)) = socket_join s r (l_adapter st)"
    and "l_sockets (fst (lenient_join_request s d now st)) = l_sockets st"
    and "l_seen (fst (lenient_join_request s d now st)) = l_seen st"
  using assms by (simp_all add: lenient_join_request_def truthy_def Let_def has_def update_conv')

lemma lenient_join_invalid:
  "\<not> truthy (d_roomId d) \<Longrightarrow>
   lenient_join_request s d now st =
     (st, [\<lparr>recipients = io_to (Some s) (l_adapter st), event = ''join-error'',
            body = MessageP ''Room ID missing''\<rparr>])"
  by (simp add: lenient_join_request_def)

lemma lenient_invariant_join:
  assumes inv: "lenient_invariant st" and conn: "s \<in> set (l_sockets st)"
  shows "lenient_invariant (fst (lenient_join_request s d now st))"
proof (cases "truthy (d_roomId d)")
  case False
  then show ?thesis using inv by (simp add: lenient_join_invalid)
next
  case True
  then obtain r where r: "d_roomId d = Some r" "r \<noteq> []" by (auto simp: truthy_Some)
  let ?st' = "fst (lenient_join_request s d now st)"
  let ?u = "\<lparr>l_id = s, l_username = js_or (d_username d) ''Anonymous'', l_joinedAt = now\<rparr>"
  let ?m = "case map_of (l_rooms st) r of None \<Rightarrow> [] | Some m \<Rightarrow> m"
  note eqs = lenient_join_rooms[OF r, of s now st]
  have seen: "s \<in> set (l_seen st)" using inv conn by (simp add: lenient_invariant_def)
  have old: "l_id (snd q) = fst q \<and> fst q \<in> set (l_seen st) \<and>
        (fst q \<in> set (l_sockets st) \<longrightarrow> (fst q, fst p) \<in> set (l_adapter st))"
    if "p \<in> set (l_rooms st)" "q \<in> set (snd p)" for p q
    using inv that unfolding lenient_invariant_def by blast
  have inm: "(r, ?m) \<in> set (l_rooms st)" if "q \<in> set ?m" for q
    using that by (cases "map_of (l_rooms st) r") (auto dest: map_of_SomeD)
  have 1: "l_id (snd q) = fst q \<and> fst q \<in> set (l_seen ?st') \<and>
        (fst q \<in> set (l_sockets ?st') \<longrightarrow> (fst q, fst p) \<in> set (l_adapter ?st'))"
    if p: "p \<in> set (l_rooms ?st')" and q: "q \<in> set (snd p)" for p q
  proof -
    consider "p = (r, AList.update s ?u ?m)" | "p \<in> set (l_rooms st)"
      using p unfolding eqs(1) by (auto dest: in_update)
    then show ?thesis
    proof cases
      case 1
      then consider "q = (s, ?u)" | "q \<in> set ?m" using q by (auto dest: in_update)
      then show ?thesis
      proof cases
        case 1
        then show ?thesis using \<open>p = (r, AList.update s ?u ?m)\<close> seen
          by (simp add: eqs set_socket_join)
      next
        case 2
        then show ?thesis using old[OF inm[OF 2] ] \<open>p = (r, AList.update s ?u ?m)\<close>
          by (simp add: eqs set_socket_join)
      qed
    next
      case 2
      then show ?thesis using old[OF 2 q] by (simp add: eqs set_socket_join)
    qed
  qed
  have 2: "\<forall>x\<in>set (l_sockets ?st'). x \<in> set (l_seen ?st') \<and> (x, x) \<in> set (l_adapter ?st')"
    using inv by (simp add: eqs set_socket_join lenient_invariant_def)
  show ?thesis unfolding lenient_invariant_def using 1 2 by blast
qed

lemma lenient_disconnect_frame:
  "l_adapter (fst (lenient_disconnect s st)) = l_adapter st"
  "l_sockets (fst (lenient_disconnect s st)) = l_sockets st"
  "l_seen (fst (lenient_disconnect s st)) = l_seen st"
  by (simp_all add: lenient_disconnect_def Let_def split: option.splits)

lemma lenient_disconnect_rooms_cases:
  "l_rooms (fst (lenient_disconnect s st)) = l_rooms st \<or>
   (\<exists>r room0. map_of (l_rooms st) r = Some room0 \<and>
      (l_rooms (fst (lenient_disconnect s st)) = AList.delete r (l_rooms st) \<or>
       l_rooms (fst (lenient_disconnect s st)) = AList.update r (AList.delete s room0) (l_rooms st)))"
proof (cases "getRoomId s (l_rooms st)")
  case None
  then show ?thesis by (simp add: lenient_disconnect_def)
next
  case (Some r)
  show ?thesis
  proof (cases "map_of (l_rooms st) r")
    case None
    then show ?thesis using Some by (simp add: lenient_disconnect_def)
  next
    case m: (Some room0)
    show ?thesis
    proof (cases "r = []")
      case True
      then show ?thesis using Some by (simp add: lenient_disconnect_def)
    next
      case False
      show ?thesis
      proof (cases "AList.delete s room0 = []")
        case True
        then have "l_rooms (fst (lenient_disconnect s st)) = AList.delete r (l_rooms st)"
          using Some m False by (simp add: lenient_disconnect_def Let_def)
        then show ?thesis using m by blast
      next
        case ne: False
        then have "l_rooms (fst (lenient_disconnect s st)) = AList.update r (AList.delete s room0) (l_rooms st)"
          using Some m False by (cases "map_of room0 s") (simp_all add: lenient_disconnect_def Let_def)
        then show ?thesis using m by blast
      qed
    qed
  qed
qed

lemma lenient_disconnect_rooms:
  assumes "p \<in> set (l_rooms (fst (lenient_disconnect s st)))"
  shows "\<exists>m. (fst p, m) \<in> set (l_rooms st) \<and> set (snd p) \<subseteq> set m"
proof -
  have same: "\<exists>m. (fst p, m) \<in> set (l_rooms st) \<and> set (snd p) \<subseteq> set m" if "p \<in> set (l_rooms st)"
    using that by (intro exI[of _ "snd p"]) simp
  consider "l_rooms (fst (lenient_disconnect s st)) = l_rooms st"
    | r room0 where "map_of (l_rooms st) r = Some room0"
        "l_rooms (fst (lenient_disconnect s st)) = AList.delete r (l_rooms st)"
    | r room0 where "map_of (l_rooms st) r = Some room0"
        "l_rooms (fst (lenient_disconnect s st)) = AList.update r (AList.delete s room0) (l_rooms st)"
    using lenient_disconnect_rooms_cases[of s st] by blast
  then show ?thesis
  proof cases
    case 1
    then show ?thesis using assms same by simp
  next
    case 2
    then have "p \<in> set (l_rooms st)" using assms by (simp add: set_delete)
    then show ?thesis by (rule same)
  next
    case 3
    then consider "p = (r, AList.delete s room0)" | "p \<in> set (l_rooms st)"
      using assms by (auto dest: in_update)
    then show ?thesis
    proof cases
      case 1
      have "(r, room0) \<in> set (l_rooms st)" using 3(1) by (rule map_of_SomeD)
      then show ?thesis using 1 by (intro exI[of _ room0]) (auto simp: set_delete)
    next
      case 2 then show ?thesis by (rule same)
    qed
  qed
qed

lemma lenient_invariant_step_main:
  assumes inv: "lenient_invariant st" and nd: "\<And>s. a \<noteq> Drop s" and nr: "\<And>s. a \<noteq> Recover s"
  shows "lenient_invariant (fst (lenient_step st a))"
proof (cases a)
  case (Drop s)
  then show ?thesis using nd by simp
next
  case (Recover s)
  then show ?thesis using nr by simp
next
  case (Connect s)
  show ?thesis
  proof (cases "s \<in> set (l_seen st)")
    case True
    then show ?thesis using inv Connect by simp
  next
    case False
    have "lenient_invariant (st\<lparr>l_adapter := socket_join s s (l_adapter st),
               l_sockets := l_sockets st @ [s], l_seen := l_seen st @ [s]\<rparr>)"
      using inv False unfolding lenient_invariant_def by (auto simp: set_socket_join)
    then show ?thesis using Connect False by simp
  qed
next
  case (Emit s name d now)
  show ?thesis
  proof (cases "s \<in> set (l_sockets st) \<and> name = ''join-request''")
    case True
    then show ?thesis using inv Emit by (simp add: lenient_on_event_def lenient_invariant_join)
  next
    case False
    then have "fst (lenient_step st a) = st" using Emit by (auto simp: lenient_on_event_def)
    then show ?thesis using inv by simp
  qed
next
  case (Disconnect s)
  show ?thesis
  proof (cases "s \<in> set (l_sockets st)")
    case False
    then show ?thesis using inv Disconnect by simp
  next
    case True
    let ?st0 = "st\<lparr>l_adapter := leave_all s (l_adapter st), l_sockets := removeAll s (l_sockets st)\<rparr>"
    let ?st' = "fst (lenient_disconnect s ?st0)"
    have st': "fst (lenient_step st a) = ?st'" using Disconnect True by simp
    have 1: "l_id (snd q) = fst q \<and> fst q \<in> set (l_seen ?st') \<and>
        (fst q \<in> set (l_sockets ?st') \<longrightarrow> (fst q, fst p) \<in> set (l_adapter ?st'))"
      if p: "p \<in> set (l_rooms ?st')" and q: "q \<in> set (snd p)" for p q
    proof -
      obtain m where m: "(fst p, m) \<in> set (l_rooms st)" "set (snd p) \<subseteq> set m"
        using lenient_disconnect_rooms[OF p] by auto
      have "q \<in> set m" using q m(2) by auto
      then have "l_id (snd q) = fst q \<and> fst q \<in> set (l_seen st) \<and>
        (fst q \<in> set (l_sockets st) \<longrightarrow> (fst q, fst p) \<in> set (l_adapter st))"
        using inv m(1) unfolding lenient_invariant_def by fastforce
      then show ?thesis by (auto simp: lenient_disconnect_frame leave_all_def)
    qed
    have 2: "\<forall>x\<in>set (l_sockets ?st'). x \<in> set (l_seen ?st') \<and> (x, x) \<in> set (l_adapter ?st')"
      using inv unfolding lenient_invariant_def by (auto simp: lenient_disconnect_frame leave_all_def)
    show ?thesis unfolding st' lenient_invariant_def using 1 2 by blast
  qed
qed

lemma lenient_step_drop: "lenient_step st (Drop s) = lenient_step st (Disconnect s)"
  by simp

lemma lenient_invariant_step:
  assumes inv: "lenient_invariant st"
  shows "lenient_invariant (fst (lenient_step st a))"
proof (cases a)
  case (Drop s)
  have "lenient_invariant (fst (lenient_step st (Disconnect s)))"
    using inv by (rule lenient_invariant_step_main) simp_all
  then show ?thesis unfolding Drop lenient_step_drop .
next
  case (Recover s)
  then show ?thesis using inv by simp
next
  case (Connect s)
  show ?thesis using inv unfolding Connect by (rule lenient_invariant_step_main) simp_all
next
  case (Emit s name d now)
  show ?thesis using inv unfolding Emit by (rule lenient_invariant_step_main) simp_all
next
  case (Disconnect s)
  show ?thesis using inv unfolding Disconnect by (rule lenient_invariant_step_main) simp_all
qed

lemma lenient_reachable_invariant: "lenient_reachable st \<Longrightarrow> lenient_invariant st"
proof (induction rule: lenient_reachable.induct)
  case lenient_reachable_init
  show ?case by (simp add: lenient_invariant_def lenient_init_def)
next
  case (lenient_reachable_step st a)
  then show ?case by (simp add: lenient_invariant_step)
qed

lemma lenient_reachable_run: "lenient_reachable st \<Longrightarrow> lenient_reachable (lenient_run st as)"
  unfolding lenient_run_def by (induction as arbitrary: st) (simp_all add: lenient_reachable_step)

section \<open>The lenient server on examples\<close>

lemmas lenient_eval =
  lenient_run_def lenient_init_def join_data_def lenient_on_event_def lenient_join_request_def
  truthy_def lenient_getUsersInRoom_def socket_join_def has_def socket_to_def socket_emit_def io_to_def js_or_def Let_def

lemma lenient_one_eq:
  "lenient_one = \<lparr>l_rooms = [], l_adapter = [(''A'', ''A'')], l_sockets = [''A''], l_seen = [''A'']\<rparr>"
  by (simp add: lenient_one_def lenient_eval)

lemma lenient_two_bobs_eq:
  "lenient_two_bobs =
     \<lparr>l_rooms = [(''r1'', [(''A'', \<lparr>l_id = ''A'', l_username = ''bob'', l_joinedAt = 1\<rparr>),
                            (''B'', \<lparr>l_id = ''B'', l_username = ''bob'', l_joinedAt = 2\<rparr>)])],
      l_adapter = [(''A'', ''A''), (''B'', ''B''), (''A'', ''r1''), (''B'', ''r1'')],
      l_sockets = [''A'', ''B''], l_seen = [''A'', ''B'']\<rparr>"
  by (simp add: lenient_two_bobs_def lenient_eval)

lemma lenient_two_rooms_eq:
  "lenient_two_rooms =
     \<lparr>l_rooms = [(''r1'', [(''A'', \<lparr>l_id = ''A'', l_username = ''alice'', l_joinedAt = 1\<rparr>)]),
                  (''r2'', [(''A'', \<lparr>l_id = ''A'', l_username = ''alice'', l_joinedAt = 2\<rparr>)])],
      l_adapter = [(''A'', ''A''), (''A'', ''r1''), (''A'', ''r2'')],
      l_sockets = [''A''], l_seen = [''A'']\<rparr>"
  by (simp add: lenient_two_rooms_def lenient_eval)

lemma lenient_guest_eq:
  "lenient_guest =
     \<lparr>l_rooms = [(''r1'', [(''A'', \<lparr>l_id = ''A'', l_username = ''alice'', l_joinedAt = 1\<rparr>),
                            (''B'', \<lparr>l_id = ''B'', l_username = ''bob'', l_joinedAt = 2\<rparr>)])],
      l_adapter = [(''A'', ''A''), (''B'', ''B''), (''C'', ''C''), (''A'', ''r1''), (''B'', ''r1'')],
      l_sockets = [''A'', ''B'', ''C''], l_seen = [''A'', ''B'', ''C'']\<rparr>"
  by (simp add: lenient_guest_def lenient_eval)

lemma lenient_reachable_examples:
  "lenient_reachable lenient_one" "lenient_reachable lenient_two_bobs"
  "lenient_reachable lenient_two_rooms" "lenient_reachable lenient_guest"
  unfolding lenient_one_def lenient_two_bobs_def lenient_two_rooms_def lenient_guest_def
  by (rule lenient_reachable_run, rule lenient_reachable_init)+

text \<open>
  In the lenient server two sockets join room \<open>r1\<close> under the same username, and
  both are filed: its \<open>join-request\<close> listener makes no scan of the room.
\<close>

theorem lenient_duplicate_usernames:
  "lenient_reachable lenient_two_bobs \<and>
   map l_username (lenient_getUsersInRoom ''r1'' (l_rooms lenient_two_bobs)) = [''bob'', ''bob''] \<and>
   \<not> distinct (map l_username (lenient_getUsersInRoom ''r1'' (l_rooms lenient_two_bobs)))"
  using lenient_reachable_examples(2)
  by (simp add: lenient_two_bobs_eq lenient_getUsersInRoom_def)

section \<open>Joins without a room id or a username\<close>

lemma lenient_own_room:
  "lenient_reachable st \<Longrightarrow> s \<in> set (l_sockets st) \<Longrightarrow> s \<in> set (io_to (Some s) (l_adapter st))"
  using lenient_reachable_invariant[of st] by (simp add: lenient_invariant_def in_io_to)

lemma lenient_join_anonymous:
  assumes "d_roomId d = Some r" "r \<noteq> []" "\<not> truthy (d_username d)"
  shows "\<lparr>l_id = s, l_username = ''Anonymous'', l_joinedAt = now\<rparr>
           \<in> set (lenient_getUsersInRoom r (l_rooms (fst (lenient_join_request s d now st))))"
proof -
  have n: "js_or (d_username d) ''Anonymous'' = ''Anonymous''"
    using assms(3) by (cases "d_username d") (simp_all add: js_or_def truthy_def)
  let ?u = "\<lparr>l_id = s, l_username = ''Anonymous'', l_joinedAt = now\<rparr>"
  let ?m = "case map_of (l_rooms st) r of None \<Rightarrow> [] | Some m \<Rightarrow> m"
  have "map_of (AList.update s ?u ?m) s = Some ?u" by (simp add: update_conv')
  then have "(s, ?u) \<in> set (AList.update s ?u ?m)" by (rule map_of_SomeD)
  then have "?u \<in> snd ` set (AList.update s ?u ?m)" by force
  then show ?thesis
    unfolding lenient_join_rooms(1)[OF assms(1,2)] n
    by (simp add: lenient_getUsersInRoom_def update_conv')
qed

text \<open>
  C3. The strict server answers a \<open>join-request\<close> whose \<open>roomId\<close> or \<open>username\<close>
  is empty or missing through the acknowledgment callback with the error "Room ID and
  username are required"; its state is the one before the request and it emits nothing.
  The lenient server rejects an empty or missing \<open>roomId\<close> alone: its state is
  unchanged and one \<open>join-error\<close> goes to the room named by the socket id, which a
  connected requester is in. For an empty or missing \<open>username\<close> with a room id it files
  the requester in the room under the name "Anonymous".
\<close>

theorem join_validation_by_variant:
  "(\<not> truthy (d_roomId d) \<or> \<not> truthy (d_username d) \<longrightarrow>
      join_request s d now st = (st, Some (AckError ''Room ID and username are required''), [])) \<and>
   (\<not> truthy (d_roomId d) \<longrightarrow>
      lenient_join_request s d now lst =
        (lst, [\<lparr>recipients = io_to (Some s) (l_adapter lst), event = ''join-error'',
                body = MessageP ''Room ID missing''\<rparr>])) \<and>
   (lenient_reachable lst \<and> s \<in> set (l_sockets lst) \<longrightarrow> s \<in> set (io_to (Some s) (l_adapter lst))) \<and>
   (truthy (d_roomId d) \<and> \<not> truthy (d_username d) \<longrightarrow>
      (\<exists>r. d_roomId d = Some r \<and>
         \<lparr>l_id = s, l_username = ''Anonymous'', l_joinedAt = now\<rparr>
           \<in> set (lenient_getUsersInRoom r (l_rooms (fst (lenient_join_request s d now lst))))))"
proof (intro conjI impI)
  assume "\<not> truthy (d_roomId d) \<or> \<not> truthy (d_username d)"
  then show "join_request s d now st = (st, Some (AckError ''Room ID and username are required''), [])"
    by (rule join_request_invalid)
next
  assume "\<not> truthy (d_roomId d)"
  then show "lenient_join_request s d now lst =
        (lst, [\<lparr>recipients = io_to (Some s) (l_adapter lst), event = ''join-error'',
                body = MessageP ''Room ID missing''\<rparr>])"
    by (rule lenient_join_invalid)
next
  assume "lenient_reachable lst \<and> s \<in> set (l_sockets lst)"
  then show "s \<in> set (io_to (Some s) (l_adapter lst))" by (simp add: lenient_own_room)
next
  assume h: "truthy (d_roomId d) \<and> \<not> truthy (d_username d)"
  then obtain r where r: "d_roomId d = Some r" "r \<noteq> []" by (auto simp: truthy_Some)
  then show "\<exists>r. d_roomId d = Some r \<and>
         \<lparr>l_id = s, l_username = ''Anonymous'', l_joinedAt = now\<rparr>
           \<in> set (lenient_getUsersInRoom r (l_rooms (fst (lenient_join_request s d now lst))))"
    using h lenient_join_anonymous[OF r, of s now lst] by blast
qed

theorem join_validation_by_variant_witness:
  "\<not> truthy (d_roomId (join_data [] ''alice'')) \<and>
   join_request ''C'' (join_data [] ''alice'') 3 two_users =
     (two_users, Some (AckError ''Room ID and username are required''), []) \<and>
   lenient_join_request ''A'' (join_data [] ''alice'') 3 lenient_one =
     (lenient_one, [\<lparr>recipients = [''A''], event = ''join-error'', body = MessageP ''Room ID missing''\<rparr>]) \<and>
   truthy (d_roomId (room_data ''r1'')) \<and> \<not> truthy (d_username (room_data ''r1'')) \<and>
   \<lparr>l_id = ''A'', l_username = ''Anonymous'', l_joinedAt = 3\<rparr>
      \<in> set (lenient_getUsersInRoom ''r1'' (l_rooms (fst (lenient_join_request ''A'' (room_data ''r1'') 3 lenient_one))))"
proof -
  have a: "\<not> truthy (d_roomId (join_data [] ''alice''))" by (simp add: join_data_def truthy_def)
  have b: "truthy (d_roomId (room_data ''r1''))" "\<not> truthy (d_username (room_data ''r1''))"
    "d_roomId (room_data ''r1'') = Some ''r1''"
    by (simp_all add: room_data_def truthy_def)
  have io: "io_to (Some ''A'') (l_adapter lenient_one) = [''A'']"
    by (simp add: lenient_one_eq io_to_def)
  note t1 = join_validation_by_variant [of "join_data [] ''alice''" "''C''" 3 two_users lenient_one]
  note t2 = join_validation_by_variant [of "join_data [] ''alice''" "''A''" 3 two_users lenient_one]
  note t3 = join_validation_by_variant [of "room_data ''r1''" "''A''" 3 two_users lenient_one]
  have 1: "join_request ''C'' (join_data [] ''alice'') 3 two_users =
     (two_users, Some (AckError ''Room ID and username are required''), [])"
    using t1 a by blast
  have 2: "lenient_join_request ''A'' (join_data [] ''alice'') 3 lenient_one =
     (lenient_one, [\<lparr>recipients = [''A''], event = ''join-error'', body = MessageP ''Room ID missing''\<rparr>])"
    using t2 a unfolding io by blast
  have 3: "\<lparr>l_id = ''A'', l_username = ''Anonymous'', l_joinedAt = 3\<rparr>
      \<in> set (lenient_getUsersInRoom ''r1'' (l_rooms (fst (lenient_join_request ''A'' (room_data ''r1'') 3 lenient_one))))"
    using t3 b by auto
  show ?thesis using a 1 2 b(1,2) 3 by (intro conjI)
qed

text \<open>
  The lenient server, asked to join room \<open>r1\<close> with no username: the requester is
  filed as "Anonymous" and told of the success.
\<close>

theorem lenient_join_without_username:
  "\<not> truthy (d_username (room_data ''r1'')) \<and>
   l_rooms lenient_one = [] \<and>
   lenient_step lenient_one (Emit ''A'' ''join-request'' (room_data ''r1'') 3) =
     (\<lparr>l_rooms = [(''r1'', [(''A'', \<lparr>l_id = ''A'', l_username = ''Anonymous'', l_joinedAt = 3\<rparr>)])],
       l_adapter = [(''A'', ''A''), (''A'', ''r1'')], l_sockets = [''A''], l_seen = [''A'']\<rparr>,
      [\<lparr>recipients = [''A''], event = ''join-success'',
        body = JoinSuccess ''r1'' [\<lparr>l_id = ''A'', l_username = ''Anonymous'', l_joinedAt = 3\<rparr>]\<rparr>,
       \<lparr>recipients = [], event = ''user-joined'',
        body = LenientUserJoined \<lparr>l_id = ''A'', l_username = ''Anonymous'', l_joinedAt = 3\<rparr>
                 [\<lparr>l_id = ''A'', l_username = ''Anonymous'', l_joinedAt = 3\<rparr>]\<rparr>])"
  by (simp add: lenient_one_eq room_data_def lenient_on_event_def lenient_join_request_def
        truthy_def lenient_getUsersInRoom_def socket_join_def has_def socket_to_def socket_emit_def io_to_def js_or_def Let_def)

section \<open>Leaving, in both servers\<close>

lemma getRoomId_None: "getRoomId s rs = None \<longleftrightarrow> (\<forall>p\<in>set rs. \<not> has s (snd p))"
proof (induction rs)
  case Nil
  show ?case by simp
next
  case (Cons p rs)
  obtain r m where p: "p = (r, m)" by (cases p)
  show ?case using Cons by (simp add: p)
qed

lemma lenient_disconnect_absent:
  "\<forall>p\<in>set (l_rooms st). \<not> has s (snd p) \<Longrightarrow> lenient_disconnect s st = (st, [])"
  by (simp add: lenient_disconnect_def getRoomId_None[symmetric])

text \<open>
  C9. In either server the \<open>disconnect\<close> listener run for a socket that is in no room
  changes nothing and emits nothing. In a reachable state of the strict server a second
  run for the same socket is such a run: it leaves the state of the first run and emits
  nothing, also after the whole transport disconnect.
\<close>

theorem disconnect_noop_and_idempotence:
  "((\<forall>p\<in>set (rooms st). \<not> has s (snd p)) \<longrightarrow> disconnect s st = (st, [])) \<and>
   ((\<forall>p\<in>set (l_rooms lst). \<not> has s (snd p)) \<longrightarrow> lenient_disconnect s lst = (lst, [])) \<and>
   (reachable st \<longrightarrow> disconnect s (fst (disconnect s st)) = (fst (disconnect s st), [])) \<and>
   (reachable st \<and> s \<in> set (sockets st) \<longrightarrow>
      disconnect s (fst (step st (Disconnect s))) = (fst (step st (Disconnect s)), []))"
  using disconnect_idempotent[of st s] lenient_disconnect_absent[of lst s] by blast

theorem disconnect_noop_and_idempotence_witness:
  "disconnect ''C'' two_users = (two_users, []) \<and>
   lenient_disconnect ''C'' lenient_two_bobs = (lenient_two_bobs, []) \<and>
   fst (disconnect ''A'' one_user) \<noteq> one_user \<and>
   disconnect ''A'' (fst (disconnect ''A'' one_user)) = (fst (disconnect ''A'' one_user), []) \<and>
   disconnect ''A'' (fst (step one_user (Disconnect ''A''))) = (fst (step one_user (Disconnect ''A'')), [])"
proof -
  have absent: "\<forall>p\<in>set (rooms two_users). \<not> has ''C'' (snd p)"
    by (simp add: two_users_eq has_def)
  have labsent: "\<forall>p\<in>set (l_rooms lenient_two_bobs). \<not> has ''C'' (snd p)"
    by (simp add: lenient_two_bobs_eq has_def)
  have conn: "''A'' \<in> set (sockets one_user)" by (simp add: one_user_eq)
  have changed: "fst (disconnect ''A'' one_user) \<noteq> one_user"
    by (simp add: disconnect_one_user) (simp add: one_user_eq)
  show ?thesis
    using disconnect_noop_and_idempotence [of two_users "''C''" lenient_two_bobs]
      disconnect_noop_and_idempotence [of one_user "''A''" lenient_two_bobs]
      absent labsent conn changed reachable_one_user by blast
qed

text \<open>
  The lenient \<open>join-request\<close> leaves no room, so a socket can be in two. The
  first run of its \<open>disconnect\<close> listener removes the socket from the first room
  found, the second run from the other: two runs are not one.
\<close>

theorem lenient_disconnect_twice_differs:
  "lenient_reachable lenient_two_rooms \<and>
   l_rooms (fst (lenient_disconnect ''A'' lenient_two_rooms)) =
     [(''r2'', [(''A'', \<lparr>l_id = ''A'', l_username = ''alice'', l_joinedAt = 2\<rparr>)])] \<and>
   l_rooms (fst (lenient_disconnect ''A'' (fst (lenient_disconnect ''A'' lenient_two_rooms)))) = [] \<and>
   lenient_disconnect ''A'' (fst (lenient_disconnect ''A'' lenient_two_rooms)) \<noteq>
     (fst (lenient_disconnect ''A'' lenient_two_rooms), [])"
proof -
  have once: "lenient_disconnect ''A'' lenient_two_rooms =
      (lenient_two_rooms\<lparr>l_rooms := [(''r2'', [(''A'', \<lparr>l_id = ''A'', l_username = ''alice'', l_joinedAt = 2\<rparr>)])]\<rparr>, [])"
    by (simp add: lenient_two_rooms_eq lenient_disconnect_def has_def Let_def)
  have twice: "lenient_disconnect ''A'' (fst (lenient_disconnect ''A'' lenient_two_rooms)) =
      (lenient_two_rooms\<lparr>l_rooms := []\<rparr>, [])"
    unfolding once by (simp add: lenient_two_rooms_eq lenient_disconnect_def has_def Let_def)
  show ?thesis
    using lenient_reachable_examples(3) unfolding twice unfolding once
    by (simp add: lenient_two_rooms_eq)
qed

section \<open>Relaying code changes, in both servers\<close>

lemma lenient_step_code_change:
  "s \<in> set (l_sockets st) \<Longrightarrow>
   lenient_step st (Emit s ''code-change'' d now) = (st, lenient_code_change s d now st)"
  by (simp add: lenient_on_event_def)

lemma lenient_member_joined:
  assumes inv: "lenient_invariant st" and u: "u \<in> set (lenient_getUsersInRoom r (l_rooms st))"
    and conn: "l_id u \<in> set (l_sockets st)"
  shows "(l_id u, r) \<in> set (l_adapter st)"
proof -
  obtain m where m: "map_of (l_rooms st) r = Some m" "u \<in> snd ` set m"
    using u by (cases "map_of (l_rooms st) r") (simp_all add: lenient_getUsersInRoom_def)
  then obtain q where q: "q \<in> set m" "u = snd q" by auto
  have rm: "(r, m) \<in> set (l_rooms st)" using m(1) by (rule map_of_SomeD)
  have "l_id (snd q) = fst q \<and> (fst q \<in> set (l_sockets st) \<longrightarrow> (fst q, r) \<in> set (l_adapter st))"
    using inv rm q(1) unfolding lenient_invariant_def by fastforce
  then show ?thesis using q(2) conn by simp
qed

lemma lenient_code_change_reaches_member:
  assumes inv: "lenient_invariant st" and p: "own_room_private s (l_adapter st)"
    and r: "d_roomId d = Some r"
    and u: "u \<in> set (lenient_getUsersInRoom r (l_rooms st))"
    and conn: "l_id u \<in> set (l_sockets st)" and ne: "l_id u \<noteq> s"
  shows "\<exists>e\<in>set (lenient_code_change s d now st). l_id u \<in> set (recipients e) \<and>
           event e = ''code-update'' \<and> body e = LenientCodeUpdate (d_code d) (d_cursorPos d) s now"
proof -
  have "(l_id u, r) \<in> set (l_adapter st)" using inv u conn by (rule lenient_member_joined)
  then have "l_id u \<in> set (socket_to s (Some r) (l_adapter st))"
    using ne p by (simp add: in_socket_to_private)
  then show ?thesis using r by (simp add: lenient_code_change_def)
qed

lemma lenient_code_change_adapter_only:
  "l_adapter st2 = l_adapter st \<Longrightarrow> lenient_code_change s d now st2 = lenient_code_change s d now st"
  by (simp add: lenient_code_change_def)

lemma bob_in_room_A_code_change:
  "step bob_in_room_A (Emit ''A'' ''code-change'' (code_data ''A'' ''x = 1'') 5) =
     (bob_in_room_A, None,
      [\<lparr>recipients = [], event = ''code-update'',
        body = CodeUpdate (Some ''x = 1'') (Some ''4'') (Some ''main.js'') ''A'' 5\<rparr>])"
  by (simp add: on_event_def code_change_def code_data_def truthy_def)
     (simp add: bob_in_room_A_eq socket_to_def socket_emit_def io_to_def)

lemma lenient_bob_in_room_C_eq:
  "lenient_bob_in_room_C =
     \<lparr>l_rooms = [(''r1'', [(''B'', \<lparr>l_id = ''B'', l_username = ''bob'', l_joinedAt = 1\<rparr>)]),
                 (''C'', [(''B'', \<lparr>l_id = ''B'', l_username = ''bob'', l_joinedAt = 2\<rparr>)])],
      l_adapter = [(''B'', ''B''), (''C'', ''C''), (''B'', ''r1''), (''B'', ''C'')],
      l_sockets = [''B'', ''C''], l_seen = [''B'', ''C'']\<rparr>"
  by (simp add: lenient_bob_in_room_C_def lenient_eval)

lemma lenient_reachable_bob_in_room_C: "lenient_reachable lenient_bob_in_room_C"
  unfolding lenient_bob_in_room_C_def by (rule lenient_reachable_run) (rule lenient_reachable_init)

lemma lenient_bob_in_room_C_code_change:
  "lenient_step lenient_bob_in_room_C (Emit ''C'' ''code-change'' (code_data ''r1'' ''x = 1'') 5) =
     (lenient_bob_in_room_C,
      [\<lparr>recipients = [], event = ''code-update'',
        body = LenientCodeUpdate (Some ''x = 1'') (Some ''4'') ''C'' 5\<rparr>])"
  by (simp add: lenient_on_event_def lenient_code_change_def code_data_def)
     (simp add: lenient_bob_in_room_C_eq socket_to_def socket_emit_def io_to_def)

text \<open>
  C10. A \<open>code-change\<close> is to be relayed to the members of the room it names whether
  or not the sender is a member of that room, the delivery depending on the membership of
  the target room alone. Neither listener looks at the sender's membership, but both
  relay with \<open>socket.to(roomId)\<close>, which skips the sockets joined to the room named
  by the sender's id. Strict server: socket \<open>B\<close> is the member of the room whose id
  is \<open>A\<close>'s socket id and \<open>A\<close> is in no room, a reachable state; the
  \<open>code-change\<close> of \<open>A\<close> for that room is addressed to nobody. Lenient server:
  socket \<open>B\<close> is a member of \<open>r1\<close> and of the room whose id is \<open>C\<close>'s socket
  id and \<open>C\<close> is in no room, a reachable state; the \<open>code-change\<close> of \<open>C\<close>
  for \<open>r1\<close> is addressed to nobody.
\<close>

theorem code_change_outsider_by_room_name:
  "reachable bob_in_room_A \<and>
   ''A'' \<in> set (sockets bob_in_room_A) \<and>
   getRoomForSocket ''A'' (rooms bob_in_room_A) = None \<and>
   map uid (getUsersInRoom ''A'' (rooms bob_in_room_A)) = [''B''] \<and>
   step bob_in_room_A (Emit ''A'' ''code-change'' (code_data ''A'' ''x = 1'') 5) =
     (bob_in_room_A, None,
      [\<lparr>recipients = [], event = ''code-update'',
        body = CodeUpdate (Some ''x = 1'') (Some ''4'') (Some ''main.js'') ''A'' 5\<rparr>]) \<and>
   lenient_reachable lenient_bob_in_room_C \<and>
   ''C'' \<in> set (l_sockets lenient_bob_in_room_C) \<and>
   ''B'' \<in> set (l_sockets lenient_bob_in_room_C) \<and>
   getRoomId ''C'' (l_rooms lenient_bob_in_room_C) = None \<and>
   map l_id (lenient_getUsersInRoom ''r1'' (l_rooms lenient_bob_in_room_C)) = [''B''] \<and>
   lenient_step lenient_bob_in_room_C (Emit ''C'' ''code-change'' (code_data ''r1'' ''x = 1'') 5) =
     (lenient_bob_in_room_C,
      [\<lparr>recipients = [], event = ''code-update'',
        body = LenientCodeUpdate (Some ''x = 1'') (Some ''4'') ''C'' 5\<rparr>])"
proof -
  have 1: "''A'' \<in> set (sockets bob_in_room_A)"
    "getRoomForSocket ''A'' (rooms bob_in_room_A) = None"
    "map uid (getUsersInRoom ''A'' (rooms bob_in_room_A)) = [''B'']"
    by (simp_all add: bob_in_room_A_eq getUsersInRoom_def has_def)
  have 2: "''C'' \<in> set (l_sockets lenient_bob_in_room_C)"
    "''B'' \<in> set (l_sockets lenient_bob_in_room_C)"
    "getRoomId ''C'' (l_rooms lenient_bob_in_room_C) = None"
    "map l_id (lenient_getUsersInRoom ''r1'' (l_rooms lenient_bob_in_room_C)) = [''B'']"
    by (simp_all add: lenient_bob_in_room_C_eq lenient_getUsersInRoom_def has_def)
  show ?thesis
    using reachable_bob_in_room_A lenient_reachable_bob_in_room_C 1 2
      bob_in_room_A_code_change lenient_bob_in_room_C_code_change
    by (intro conjI)
qed

theorem code_change_outsider_by_room_name_witness:
  "map recipients (snd (snd (step bob_in_room_A (Emit ''A'' ''code-change'' (code_data ''A'' ''x = 1'') 5)))) = [[]] \<and>
   map recipients (snd (lenient_step lenient_bob_in_room_C (Emit ''C'' ''code-change'' (code_data ''r1'' ''x = 1'') 5))) = [[]]"
  using code_change_outsider_by_room_name by (simp del: step.simps lenient_step.simps)

end
